theory Spec2Isabelle
  imports Complex_Main "HOL-Library.Multiset"
begin

section \<open>Geometry: \<open>calculate_distance_km\<close>\<close>

text \<open>
  The functions of the router are first modelled with exact real arithmetic: there the
  Python floats are real numbers, and rounding, NaN and the infinities are left out.
  Where a property depends on the rounding of the machine's doubles, the arithmetic is
  left open instead (\<open>fp_ops\<close> below).  The exceptions of the router are values of
  \<open>py_error\<close>.
\<close>

datatype py_error =
    ValueError | StopIteration | IndexError | RuntimeError | ValidationError
  | ZeroDivisionError | OverflowError | ModelError string | HTTPException

record StopLocation =
  lat :: real
  lng :: real

text \<open>\<open>math.radians\<close>, \<open>math.sqrt\<close> (which raises on a negative argument) and
  \<open>math.atan2\<close> of the Python standard library.\<close>

definition radians :: "real \<Rightarrow> real" where
  "radians x = x * pi / 180"

definition py_sqrt :: "real \<Rightarrow> py_error + real" where
  "py_sqrt x = (if x < 0 then Inl ValueError else Inr (sqrt x))"

definition atan2 :: "real \<Rightarrow> real \<Rightarrow> real" where
  "atan2 y x =
     (if 0 < x then arctan (y / x)
      else if x < 0 then (if 0 \<le> y then arctan (y / x) + pi else arctan (y / x) - pi)
      else if 0 < y then pi / 2
      else if y < 0 then - (pi / 2)
      else 0)"

text \<open>The quantity \<open>a\<close> of \<open>calculate_distance_km\<close>.\<close>

definition haversine_a :: "StopLocation \<Rightarrow> StopLocation \<Rightarrow> real" where
  "haversine_a loc1 loc2 =
     (let lat1 = radians (lat loc1); lon1 = radians (lng loc1);
          lat2 = radians (lat loc2); lon2 = radians (lng loc2);
          dlat = lat2 - lat1;
          dlon = lon2 - lon1
      in (sin (dlat / 2))\<^sup>2 + cos lat1 * cos lat2 * (sin (dlon / 2))\<^sup>2)"

text \<open>The last two lines of \<open>calculate_distance_km\<close>, from the value of \<open>a\<close> that
  the lines before have computed: \<open>c = 2 * atan2(sqrt(a), sqrt(1-a))\<close> and
  \<open>return 6371.0 * c\<close>.  Either square root raises \<open>ValueError\<close> when its argument is
  negative, that is when \<open>a\<close> is below 0 or above 1.\<close>

definition distance_from_a :: "real \<Rightarrow> py_error + real" where
  "distance_from_a a =
     (case py_sqrt a of
        Inl e \<Rightarrow> Inl e
      | Inr sa \<Rightarrow>
         (case py_sqrt (1 - a) of
            Inl e \<Rightarrow> Inl e
          | Inr sb \<Rightarrow> Inr (6371.0 * (2 * atan2 sa sb))))"

text \<open>\<open>calculate_distance_km\<close> in exact arithmetic.\<close>

definition calculate_distance_km :: "StopLocation \<Rightarrow> StopLocation \<Rightarrow> py_error + real" where
  "calculate_distance_km loc1 loc2 = (let a = haversine_a loc1 loc2 in distance_from_a a)"

text \<open>The value of \<open>calculate_distance_km\<close> in exact arithmetic, where \<open>a\<close> lies in
  \<open>[0, 1]\<close> and no square root raises (lemma \<open>calculate_distance_km_total\<close>).  The
  exact model of the solvers uses this value; in doubles \<open>a\<close> can round to a value
  outside \<open>[0, 1]\<close>, and then the function raises.\<close>

definition distance_km :: "StopLocation \<Rightarrow> StopLocation \<Rightarrow> real" where
  "distance_km loc1 loc2 =
     6371.0 * (2 * atan2 (sqrt (haversine_a loc1 loc2)) (sqrt (1 - haversine_a loc1 loc2)))"


section \<open>The \<open>/api/reroute\<close> endpoint\<close>

record Stop =
  id_s :: string
  name_s :: string
  location :: StopLocation
  unloadingTimeMinutes :: "int option"

record TrafficData =
  congestionLevel :: string
  currentSpeed :: "real option"

record WeatherData =
  description :: string

record RerouteRequest =
  currentLocation :: StopLocation
  remainingStops :: "Stop list"
  currentTraffic :: TrafficData
  currentWeather :: WeatherData
  timeOfDay :: string
  dayOfWeek :: string

record RerouteResponse =
  optimizedSequence :: "string list"
  estimatedETAs :: "string \<rightharpoonup> real"
  timeSavings :: real
  confidence :: real
  method_r :: string
  reason :: string

text \<open>\<open>str.lower\<close> on the ASCII letters, and the decimal digits of \<open>len(...)\<close>
  inside an f-string.\<close>

definition lower_char :: "char \<Rightarrow> char" where
  "lower_char c =
     (case map_of (zip ''ABCDEFGHIJKLMNOPQRSTUVWXYZ'' ''abcdefghijklmnopqrstuvwxyz'') c of
        Some l \<Rightarrow> l
      | None \<Rightarrow> c)"

definition py_lower :: "string \<Rightarrow> string" where
  "py_lower s = map lower_char s"

fun str_nat :: "nat \<Rightarrow> string" where
  "str_nat n =
     (if n < 10 then [''0123456789'' ! n]
      else str_nat (n div 10) @ [''0123456789'' ! (n mod 10)])"

definition traffic_mapping :: "(string \<times> real) list" where
  "traffic_mapping =
     [(''none'', 1.0), (''light'', 0.9), (''moderate'', 0.75), (''heavy'', 0.5)]"

definition get_traffic_multiplier :: "string \<Rightarrow> real" where
  "get_traffic_multiplier traffic_level =
     (case map_of traffic_mapping (py_lower traffic_level) of
        Some m \<Rightarrow> m
      | None \<Rightarrow> 0.8)"

text \<open>\<open>base_speed_kmh = 80.0 * traffic_mult\<close>, computed the same way by both solvers.\<close>

definition base_speed_kmh :: "RerouteRequest \<Rightarrow> real" where
  "base_speed_kmh request =
     (let traffic_mult = get_traffic_multiplier (congestionLevel (currentTraffic request))
      in 80.0 * traffic_mult)"

text \<open>\<open>stop.unloadingTimeMinutes or 0\<close>.\<close>

definition unloading_or_0 :: "int option \<Rightarrow> int" where
  "unloading_or_0 u = (case u of None \<Rightarrow> 0 | Some n \<Rightarrow> n)"

text \<open>\<open>itertools.permutations\<close>: all orderings, lexicographic in the positions of the
  input.\<close>

function permutations_py :: "'a list \<Rightarrow> 'a list list" where
  "permutations_py xs =
     (if xs = [] then [[]]
      else concat (map (\<lambda>i. map ((#) (xs ! i))
                                (permutations_py (take i xs @ drop (Suc i) xs)))
                       [0..<length xs]))"
  by pat_completeness auto
termination
  by (relation "measure length") auto

declare permutations_py.simps [simp del]

text \<open>The inner loop of \<open>exhaustive_search_reroute\<close> over one permutation, in exact
  arithmetic; the state is \<open>(total_time, loc, etas)\<close>.  The same loop on the machine's
  doubles, where the sums are rounded and the distance can raise, is \<open>perm_loop_fp\<close>
  below.\<close>

fun perm_loop ::
  "real \<Rightarrow> Stop list \<Rightarrow> real \<times> StopLocation \<times> (string \<rightharpoonup> real)
     \<Rightarrow> real \<times> StopLocation \<times> (string \<rightharpoonup> real)" where
  "perm_loop speed [] st = st"
| "perm_loop speed (stop # rest) (total_time, loc, etas) =
     (let dist = distance_km loc (location stop);
          travel_time = (dist / speed) * 60;
          unloading = unloading_or_0 (unloadingTimeMinutes stop);
          total_time' = total_time + (travel_time + real_of_int unloading)
      in perm_loop speed rest (total_time', location stop, etas(id_s stop \<mapsto> total_time')))"

definition perm_total_time :: "real \<Rightarrow> StopLocation \<Rightarrow> Stop list \<Rightarrow> real" where
  "perm_total_time speed current_loc perm = fst (perm_loop speed perm (0, current_loc, Map.empty))"

text \<open>The total time of an ordering in the words of the specification: the sum, over
  the consecutive legs from the current location, of the haversine distance divided by
  the traffic-adjusted speed (in minutes), plus the unloading time of each stop.\<close>

fun route_total_time :: "real \<Rightarrow> StopLocation \<Rightarrow> Stop list \<Rightarrow> real" where
  "route_total_time speed loc [] = 0"
| "route_total_time speed loc (stop # rest) =
     distance_km loc (location stop) / speed * 60
       + real_of_int (unloading_or_0 (unloadingTimeMinutes stop))
       + route_total_time speed (location stop) rest"

text \<open>One round of the outer loop.  \<open>None\<close> is the initial state \<open>best_time = inf\<close>,
  \<open>best_sequence = best_etas = None\<close>; every real total time is below \<open>inf\<close>.\<close>

definition search_step ::
  "real \<Rightarrow> StopLocation \<Rightarrow> (real \<times> string list \<times> (string \<rightharpoonup> real)) option \<Rightarrow> Stop list
     \<Rightarrow> (real \<times> string list \<times> (string \<rightharpoonup> real)) option" where
  "search_step speed current_loc best perm =
     (case perm_loop speed perm (0, current_loc, Map.empty) of
        (total_time, loc, etas) \<Rightarrow>
          if (case best of None \<Rightarrow> True | Some (best_time, bs, be) \<Rightarrow> total_time < best_time)
          then Some (total_time, map id_s perm, etas)
          else best)"

definition exhaustive_search_reroute :: "RerouteRequest \<Rightarrow> py_error + RerouteResponse" where
  "exhaustive_search_reroute request =
     (let stops = remainingStops request;
          current_loc = currentLocation request;
          speed = base_speed_kmh request
      in case foldl (search_step speed current_loc) None (permutations_py stops) of
           None \<Rightarrow> Inl ValidationError
         | Some (best_time, best_sequence, best_etas) \<Rightarrow>
             Inr \<lparr>optimizedSequence = best_sequence,
                  estimatedETAs = best_etas,
                  timeSavings = 0.0,
                  confidence = 0.75,
                  method_r = ''heuristic'',
                  reason = ''Exhaustive search over ''
                             @ str_nat (length (permutations_py stops)) @ '' permutations''\<rparr>)"

text \<open>A result that is timed at a given speed: its sequence orders the stops of the
  request, and the ETA of the last stop of the sequence is the total time of that route at
  that speed.\<close>

definition eta_at_speed :: "real \<Rightarrow> RerouteRequest \<Rightarrow> RerouteResponse \<Rightarrow> bool" where
  "eta_at_speed speed request r \<longleftrightarrow>
     (\<exists>p. mset p = mset (remainingStops request)
        \<and> optimizedSequence r = map id_s p
        \<and> (p \<noteq> [] \<longrightarrow>
             estimatedETAs r (id_s (last p))
               = Some (route_total_time speed (currentLocation request) p)))"

subsection \<open>The exhaustive search on the machine's doubles\<close>

text \<open>
  Which ordering the search keeps depends on the totals as the machine computes them:
  sums of doubles that are equal as real numbers can differ after rounding, and
  \<open>calculate_distance_km\<close> can raise.  An \<open>fp_ops\<close> gives the operations of lines
  199 to 204 as the machine performs them on finite doubles, which are real numbers:
  the distance function (a value or an exception), the rounded sum, product and
  quotient, and the conversion of the integer unloading time (which raises
  \<open>OverflowError\<close> beyond the range of doubles).  Nothing is assumed about these
  operations, so what is proved for every \<open>fp_ops\<close> holds whatever the rounding is.
  Totals that overflow to an infinity are outside the model.
\<close>

record fp_ops =
  fp_distance :: "StopLocation \<Rightarrow> StopLocation \<Rightarrow> py_error + real"
  fp_add :: "real \<Rightarrow> real \<Rightarrow> real"
  fp_mul :: "real \<Rightarrow> real \<Rightarrow> real"
  fp_div :: "real \<Rightarrow> real \<Rightarrow> real"
  fp_of_int :: "int \<Rightarrow> py_error + real"

text \<open>Python's \<open>/\<close> raises on a zero divisor.\<close>

definition fp_divide :: "fp_ops \<Rightarrow> real \<Rightarrow> real \<Rightarrow> py_error + real" where
  "fp_divide ops x y = (if y = 0 then Inl ZeroDivisionError else Inr (fp_div ops x y))"

text \<open>The exact operations: with them the functions below are the exact model.\<close>

definition exact_ops :: fp_ops where
  "exact_ops =
     \<lparr>fp_distance = calculate_distance_km,
      fp_add = (+),
      fp_mul = (*),
      fp_div = (/),
      fp_of_int = (\<lambda>n. Inr (real_of_int n))\<rparr>"

definition fp_base_speed_kmh :: "fp_ops \<Rightarrow> RerouteRequest \<Rightarrow> real" where
  "fp_base_speed_kmh ops request =
     (let traffic_mult = get_traffic_multiplier (congestionLevel (currentTraffic request))
      in fp_mul ops 80.0 traffic_mult)"

fun perm_loop_fp ::
  "fp_ops \<Rightarrow> real \<Rightarrow> Stop list \<Rightarrow> real \<times> StopLocation \<times> (string \<rightharpoonup> real)
     \<Rightarrow> py_error + real \<times> StopLocation \<times> (string \<rightharpoonup> real)" where
  "perm_loop_fp ops speed [] st = Inr st"
| "perm_loop_fp ops speed (stop # rest) (total_time, loc, etas) =
     (case fp_distance ops loc (location stop) of
        Inl e \<Rightarrow> Inl e
      | Inr dist_km \<Rightarrow>
          (case fp_divide ops dist_km speed of
             Inl e \<Rightarrow> Inl e
           | Inr hours \<Rightarrow>
               (let travel_time = fp_mul ops hours 60;
                    unloading = unloading_or_0 (unloadingTimeMinutes stop)
                in case fp_of_int ops unloading of
                     Inl e \<Rightarrow> Inl e
                   | Inr unloading_f \<Rightarrow>
                       (let total_time' = fp_add ops total_time (fp_add ops travel_time unloading_f)
                        in perm_loop_fp ops speed rest
                             (total_time', location stop, etas(id_s stop \<mapsto> total_time'))))))"


text \<open>One round of the outer loop; an exception raised in an earlier round or in this
  one ends the search.\<close>

definition search_step_fp ::
  "fp_ops \<Rightarrow> real \<Rightarrow> StopLocation
     \<Rightarrow> py_error + (real \<times> string list \<times> (string \<rightharpoonup> real)) option \<Rightarrow> Stop list
     \<Rightarrow> py_error + (real \<times> string list \<times> (string \<rightharpoonup> real)) option" where
  "search_step_fp ops speed current_loc acc perm =
     (case acc of
        Inl e \<Rightarrow> Inl e
      | Inr best \<Rightarrow>
          (case perm_loop_fp ops speed perm (0, current_loc, Map.empty) of
             Inl e \<Rightarrow> Inl e
           | Inr (total_time, loc, etas) \<Rightarrow>
               Inr (if (case best of
                          None \<Rightarrow> True
                        | Some (best_time, bs, be) \<Rightarrow> total_time < best_time)
                    then Some (total_time, map id_s perm, etas)
                    else best)))"

definition exhaustive_search_fp :: "fp_ops \<Rightarrow> RerouteRequest \<Rightarrow> py_error + RerouteResponse" where
  "exhaustive_search_fp ops request =
     (let stops = remainingStops request;
          current_loc = currentLocation request;
          speed = fp_base_speed_kmh ops request
      in case foldl (search_step_fp ops speed current_loc) (Inr None) (permutations_py stops) of
           Inl e \<Rightarrow> Inl e
         | Inr None \<Rightarrow> Inl ValidationError
         | Inr (Some (best_time, best_sequence, best_etas)) \<Rightarrow>
             Inr \<lparr>optimizedSequence = best_sequence,
                  estimatedETAs = best_etas,
                  timeSavings = 0.0,
                  confidence = 0.75,
                  method_r = ''heuristic'',
                  reason = ''Exhaustive search over ''
                             @ str_nat (length (permutations_py stops)) @ '' permutations''\<rparr>)"

text \<open>The nearest-neighbour part of \<open>heuristic_reroute\<close>.  The search for the nearest
  stop starts from \<open>nearest_idx = 0\<close>, \<open>min_distance = inf\<close>; its first comparison
  \<open>dist < inf\<close> succeeds for every real distance, so the fold starts after the first stop
  with that stop's distance.\<close>

definition nearest_step :: "StopLocation \<Rightarrow> nat \<times> real \<Rightarrow> nat \<times> Stop \<Rightarrow> nat \<times> real" where
  "nearest_step current_loc acc p =
     (case acc of (nearest_idx, min_distance) \<Rightarrow>
        case p of (idx, stop) \<Rightarrow>
          let dist = distance_km current_loc (location stop) in
          if dist < min_distance then (idx, dist) else (nearest_idx, min_distance))"

definition find_nearest :: "StopLocation \<Rightarrow> Stop \<Rightarrow> Stop list \<Rightarrow> nat \<times> real" where
  "find_nearest current_loc stop0 rest =
     foldl (nearest_step current_loc) (0, distance_km current_loc (location stop0))
       (enumerate 1 rest)"

text \<open>\<open>while remaining:\<close> with the state \<open>(current_loc, remaining, optimized_sequence,
  cumulative_time, etas)\<close>; \<open>remaining.pop(nearest_idx)\<close> raises \<open>IndexError\<close> out of
  range.\<close>

function nn_loop ::
  "real \<Rightarrow> StopLocation \<Rightarrow> Stop list \<Rightarrow> string list \<Rightarrow> real \<Rightarrow> (string \<rightharpoonup> real)
     \<Rightarrow> py_error + string list \<times> (string \<rightharpoonup> real)" where
  "nn_loop speed current_loc [] optimized_sequence cumulative_time etas =
     Inr (optimized_sequence, etas)"
| "nn_loop speed current_loc (stop0 # rest) optimized_sequence cumulative_time etas =
     (let remaining = stop0 # rest;
          nearest_idx = fst (find_nearest current_loc stop0 rest);
          min_distance = snd (find_nearest current_loc stop0 rest)
      in if nearest_idx < length remaining
         then (let next_stop = remaining ! nearest_idx;
                   travel_time_hours = min_distance / speed;
                   travel_time_minutes = travel_time_hours * 60;
                   unloading_time = unloading_or_0 (unloadingTimeMinutes next_stop);
                   cumulative_time' =
                     cumulative_time + (travel_time_minutes + real_of_int unloading_time)
               in nn_loop speed (location next_stop)
                    (take nearest_idx remaining @ drop (Suc nearest_idx) remaining)
                    (optimized_sequence @ [id_s next_stop])
                    cumulative_time'
                    (etas(id_s next_stop \<mapsto> cumulative_time')))
         else Inl IndexError)"
  by pat_completeness auto
termination
  by (relation "measure (\<lambda>(speed, loc, remaining, opt, t, etas). length remaining)") auto

definition nearest_neighbor_reroute :: "RerouteRequest \<Rightarrow> py_error + RerouteResponse" where
  "nearest_neighbor_reroute request =
     (case nn_loop (base_speed_kmh request) (currentLocation request) (remainingStops request)
             [] 0.0 Map.empty of
        Inl e \<Rightarrow> Inl e
      | Inr (optimized_sequence, etas) \<Rightarrow>
          Inr \<lparr>optimizedSequence = optimized_sequence,
               estimatedETAs = etas,
               timeSavings = 0.0,
               confidence = 0.6,
               method_r = ''heuristic'',
               reason = ''Nearest-neighbor algorithm with traffic awareness''\<rparr>)"

definition heuristic_reroute :: "RerouteRequest \<Rightarrow> py_error + RerouteResponse" where
  "heuristic_reroute request =
     (let stops = remainingStops request in
      if length stops \<le> 1
      then Inr \<lparr>optimizedSequence = map id_s stops,
                estimatedETAs = foldl (\<lambda>m s. m(id_s s \<mapsto> 0.0)) Map.empty stops,
                timeSavings = 0.0,
                confidence = 1.0,
                method_r = ''heuristic'',
                reason = ''Only one stop remaining''\<rparr>
      else if length stops \<le> 6 then exhaustive_search_reroute request
      else nearest_neighbor_reroute request)"

text \<open>The scoring model \<open>TRAINED_MODEL\<close>: \<open>None\<close> when no model is loaded, otherwise
  an opaque function from node features and adjacency matrix to the edge-score matrix,
  which may raise.\<close>

type_synonym scoring_model = "real list list \<Rightarrow> real list list \<Rightarrow> py_error + real list list"

text \<open>\<open>ml_reroute\<close> never calls the model: inside its \<open>try\<close> it returns
  \<open>heuristic_reroute(request)\<close>, and so does its \<open>except\<close> branch.\<close>

definition ml_reroute :: "scoring_model option \<Rightarrow> RerouteRequest \<Rightarrow> py_error + RerouteResponse" where
  "ml_reroute TRAINED_MODEL request =
     (case TRAINED_MODEL of
        None \<Rightarrow> heuristic_reroute request
      | Some model \<Rightarrow>
          (case heuristic_reroute request of
             Inr r \<Rightarrow> Inr r
           | Inl e \<Rightarrow> heuristic_reroute request))"

definition reroute :: "scoring_model option \<Rightarrow> RerouteRequest \<Rightarrow> py_error + RerouteResponse" where
  "reroute TRAINED_MODEL request =
     (case ml_reroute TRAINED_MODEL request of
        Inr result \<Rightarrow> Inr result
      | Inl e \<Rightarrow> Inl HTTPException)"

section \<open>The \<open>/api/reroute/last-mile\<close> endpoint\<close>

text \<open>A coordinates dictionary \<open>{"lat": ..., "lng": ...}\<close> is modelled by
  \<open>StopLocation\<close>: both keys are present (a dictionary without one of them raises
  \<open>KeyError\<close> in the source, and an empty \<open>vehiclePosition\<close> counts as absent there).
  The unused field \<open>constraints\<close> of the request is left out.\<close>

record LastMileStop =
  id_l :: string
  name_l :: string
  coordinates :: StopLocation
  unloadingTimeMinutes_l :: "int option"
  priority :: "int option"

record LastMileRequest =
  stops :: "LastMileStop list"
  vehiclePosition :: "StopLocation option"
  currentSequence :: "string list option"

record Segment =
  fromStopId :: string
  toStopId :: string
  distanceMiles :: real
  durationMinutes :: real

record RouteMetrics =
  totalDistance :: real
  totalTime :: real
  averageStopDistance :: real

record ComparisonMetrics =
  currentRoute :: RouteMetrics
  optimizedRoute :: RouteMetrics

record LastMileResponse =
  optimized_sequence :: "string list"
  time_savings_minutes :: real
  distance_savings_miles :: real
  confidence_l :: real
  route_path :: "StopLocation list"
  segment_durations :: "Segment list"
  reasoning :: string
  comparison_metrics :: ComparisonMetrics

text \<open>\<open>next(s for s in stops if s.id == stop_id)\<close> raises \<open>StopIteration\<close> when no stop
  has the identifier.\<close>

definition find_stop :: "LastMileStop list \<Rightarrow> string \<Rightarrow> py_error + LastMileStop" where
  "find_stop all_stops stop_id =
     (case find (\<lambda>s. id_l s = stop_id) all_stops of
        None \<Rightarrow> Inl StopIteration
      | Some s \<Rightarrow> Inr s)"

fun distance_loop ::
  "LastMileStop list \<Rightarrow> string list \<Rightarrow> StopLocation \<Rightarrow> real \<Rightarrow> py_error + real" where
  "distance_loop all_stops [] current_loc total_km = Inr total_km"
| "distance_loop all_stops (stop_id # rest) current_loc total_km =
     (case find_stop all_stops stop_id of
        Inl e \<Rightarrow> Inl e
      | Inr stop \<Rightarrow>
          distance_loop all_stops rest (coordinates stop)
            (total_km + distance_km current_loc (coordinates stop)))"

definition calculate_sequence_total_distance ::
  "string list \<Rightarrow> LastMileStop list \<Rightarrow> StopLocation option \<Rightarrow> py_error + real" where
  "calculate_sequence_total_distance sequence all_stops vehicle_pos =
     (if sequence = [] then Inr 0.0
      else case (case vehicle_pos of
                   Some v \<Rightarrow> Inr v
                 | None \<Rightarrow> map_sum id coordinates (find_stop all_stops (hd sequence))) of
             Inl e \<Rightarrow> Inl e
           | Inr current_loc \<Rightarrow>
               (case distance_loop all_stops sequence current_loc 0.0 of
                  Inl e \<Rightarrow> Inl e
                | Inr total_km \<Rightarrow> Inr (total_km * 0.621371)))"

text \<open>Python's \<open>round(x, ndigits)\<close>: to the nearest multiple of \<open>10 ^ (- ndigits)\<close>,
  halves to the even neighbour.\<close>

definition round_half_even :: "real \<Rightarrow> int" where
  "round_half_even y =
     (let f = \<lfloor>y\<rfloor>; d = y - of_int f in
      if d < 1 / 2 then f
      else if 1 / 2 < d then f + 1
      else if even f then f else f + 1)"

definition py_round :: "real \<Rightarrow> nat \<Rightarrow> real" where
  "py_round x ndigits = of_int (round_half_even (x * 10 ^ ndigits)) / 10 ^ ndigits"

fun segment_loop ::
  "LastMileStop list \<Rightarrow> string list \<Rightarrow> StopLocation \<Rightarrow> string \<Rightarrow> Segment list
     \<Rightarrow> py_error + Segment list" where
  "segment_loop all_stops [] prev_loc prev_id segments = Inr segments"
| "segment_loop all_stops (stop_id # rest) prev_loc prev_id segments =
     (if stop_id = prev_id then segment_loop all_stops rest prev_loc prev_id segments
      else case find_stop all_stops stop_id of
             Inl e \<Rightarrow> Inl e
           | Inr stop \<Rightarrow>
               (let next_loc = coordinates stop;
                    dist_km = distance_km prev_loc next_loc;
                    dist_miles = dist_km * 0.621371;
                    duration_min = dist_miles * 2
                in segment_loop all_stops rest next_loc stop_id
                     (segments @ [\<lparr>fromStopId = prev_id,
                                    toStopId = stop_id,
                                    distanceMiles = py_round dist_miles 2,
                                    durationMinutes = py_round duration_min 1\<rparr>])))"

definition build_segment_durations ::
  "string list \<Rightarrow> LastMileStop list \<Rightarrow> StopLocation option \<Rightarrow> py_error + Segment list" where
  "build_segment_durations sequence all_stops vehicle_pos =
     (if sequence = [] then Inr []
      else case (case vehicle_pos of
                   Some v \<Rightarrow> Inr (v, ''vehicle'')
                 | None \<Rightarrow>
                     map_sum id (\<lambda>first_stop. (coordinates first_stop, hd sequence))
                       (find_stop all_stops (hd sequence))) of
             Inl e \<Rightarrow> Inl e
           | Inr (prev_loc, prev_id) \<Rightarrow> segment_loop all_stops sequence prev_loc prev_id [])"

text \<open>The greedy loop of \<open>heuristic_optimize_last_mile\<close>.  Its state: \<close>

record lm_state =
  unvisited :: "string set"
  optimized :: "string list"
  current_loc :: StopLocation
  total_distance :: real
  route_path_st :: "StopLocation list"

text \<open>The distance the selection compares: \<open>dist *= 0.8\<close> when \<open>stop.priority == 1\<close>.\<close>

definition effective_distance :: "StopLocation \<Rightarrow> LastMileStop \<Rightarrow> real" where
  "effective_distance cur stop =
     (let dist = distance_km cur (coordinates stop) in
      if priority stop = Some 1 then dist * 0.8 else dist)"

text \<open>The inner \<open>for stop in stops\<close>.  The pair \<open>(nearest_id, nearest_dist)\<close> is \<open>None\<close>
  while it still holds its initial value \<open>(None, inf)\<close>; both components are assigned
  together, and every real distance is below \<open>inf\<close>.\<close>

definition select_step ::
  "string set \<Rightarrow> StopLocation \<Rightarrow> (string \<times> real) option \<Rightarrow> LastMileStop
     \<Rightarrow> (string \<times> real) option" where
  "select_step unv cur nearest stop =
     (if id_l stop \<notin> unv then nearest
      else let dist = effective_distance cur stop in
           if (case nearest of None \<Rightarrow> True | Some (nearest_id, nearest_dist) \<Rightarrow> dist < nearest_dist)
           then Some (id_l stop, dist)
           else nearest)"

definition select_nearest ::
  "string set \<Rightarrow> StopLocation \<Rightarrow> LastMileStop list \<Rightarrow> (string \<times> real) option" where
  "select_nearest unv cur all_stops = foldl (select_step unv cur) None all_stops"

text \<open>One round of \<open>while unvisited\<close>: \<open>if nearest_id:\<close> is false for \<open>None\<close> and for
  the empty string, and then the state stays as it is.  The selected identifier is taken
  from \<open>unvisited\<close>, so \<open>unvisited.remove\<close> finds it.\<close>

definition lm_iter :: "LastMileStop list \<Rightarrow> lm_state \<Rightarrow> py_error + lm_state" where
  "lm_iter all_stops st =
     (case select_nearest (unvisited st) (current_loc st) all_stops of
        None \<Rightarrow> Inr st
      | Some (nearest_id, nearest_dist) \<Rightarrow>
          if nearest_id = [] then Inr st
          else (case find_stop all_stops nearest_id of
                  Inl e \<Rightarrow> Inl e
                | Inr stop \<Rightarrow>
                    Inr \<lparr>unvisited = unvisited st - {nearest_id},
                         optimized = optimized st @ [nearest_id],
                         current_loc = coordinates stop,
                         total_distance = total_distance st + nearest_dist,
                         route_path_st = route_path_st st @ [coordinates stop]\<rparr>))"

text \<open>The loop may run forever; \<open>None\<close> is that outcome.\<close>

partial_function (option) lm_loop ::
  "LastMileStop list \<Rightarrow> lm_state \<Rightarrow> (py_error + lm_state) option" where
  "lm_loop all_stops st =
     (if unvisited st = {} then Some (Inr st)
      else case lm_iter all_stops st of
             Inl e \<Rightarrow> Some (Inl e)
           | Inr st' \<Rightarrow> lm_loop all_stops st')"

definition lm_finish :: "LastMileRequest \<Rightarrow> lm_state \<Rightarrow> py_error + LastMileResponse" where
  "lm_finish request st =
     (let all_stops = stops request;
          current_seq = (case currentSequence request of
                           None \<Rightarrow> map id_l all_stops
                         | Some cs \<Rightarrow> if cs = [] then map id_l all_stops else cs)
      in case calculate_sequence_total_distance current_seq all_stops (vehiclePosition request) of
           Inl e \<Rightarrow> Inl e
         | Inr current_dist \<Rightarrow>
             (let distance_savings = max 0 (current_dist - total_distance st);
                  time_savings = distance_savings * 2
              in case build_segment_durations (optimized st) all_stops (vehiclePosition request) of
                   Inl e \<Rightarrow> Inl e
                 | Inr segs \<Rightarrow>
                     Inr \<lparr>optimized_sequence = optimized st,
                          time_savings_minutes = time_savings,
                          distance_savings_miles = distance_savings,
                          confidence_l = 0.65,
                          route_path = route_path_st st,
                          segment_durations = segs,
                          reasoning =
                            ''Optimized using nearest-neighbor heuristic (ML model unavailable)'',
                          comparison_metrics =
                            \<lparr>currentRoute =
                               \<lparr>totalDistance = current_dist,
                                totalTime = current_dist * 2,
                                averageStopDistance = current_dist / real (length all_stops)\<rparr>,
                             optimizedRoute =
                               \<lparr>totalDistance = total_distance st,
                                totalTime = total_distance st * 2,
                                averageStopDistance =
                                  total_distance st / real (length all_stops)\<rparr>\<rparr>\<rparr>))"

definition heuristic_optimize_last_mile ::
  "LastMileRequest \<Rightarrow> (py_error + LastMileResponse) option" where
  "heuristic_optimize_last_mile request =
     (let all_stops = stops request in
      if length all_stops \<le> 1
      then Some (Inr \<lparr>optimized_sequence = map id_l all_stops,
                      time_savings_minutes = 0.0,
                      distance_savings_miles = 0.0,
                      confidence_l = 1.0,
                      route_path = map coordinates all_stops,
                      segment_durations = [],
                      reasoning = ''Single stop - no optimization needed'',
                      comparison_metrics =
                        \<lparr>currentRoute =
                           \<lparr>totalDistance = 0, totalTime = 0, averageStopDistance = 0\<rparr>,
                         optimizedRoute =
                           \<lparr>totalDistance = 0, totalTime = 0, averageStopDistance = 0\<rparr>\<rparr>\<rparr>)
      else
        (let start = (case vehiclePosition request of
                        Some v \<Rightarrow> v
                      | None \<Rightarrow> coordinates (hd all_stops))
         in case lm_loop all_stops
                   \<lparr>unvisited = set (map id_l all_stops),
                    optimized = [],
                    current_loc = start,
                    total_distance = 0.0,
                    route_path_st = [start]\<rparr> of
              None \<Rightarrow> None
            | Some (Inl e) \<Rightarrow> Some (Inl e)
            | Some (Inr st) \<Rightarrow> Some (lm_finish request st)))"

section \<open>The learned path\<close>

text \<open>\<open>build_graph_from_stops\<close>: one row of eight features per stop and the
  row-normalised adjacency matrix \<open>(ones - eye) / row sums\<close>; \<open>stops[0]\<close> raises
  \<open>IndexError\<close> on an empty list.\<close>

definition node_feature_row :: "StopLocation \<Rightarrow> nat \<Rightarrow> LastMileStop \<Rightarrow> real list" where
  "node_feature_row start i stop =
     (let lat' = lat (coordinates stop);
          lng' = lng (coordinates stop);
          unloading = real_of_int (unloading_or_0 (unloadingTimeMinutes_l stop)) / 60.0;
          priority' = real_of_int (case priority stop of None \<Rightarrow> 0 | Some p \<Rightarrow> p);
          is_start = (if i = 0 then 1.0 else 0.0);
          x_norm = (lng' + 180) / 360;
          y_norm = (lat' + 90) / 180;
          dist_from_start = distance_km start \<lparr>lat = lat', lng = lng'\<rparr> / 100.0
      in [lat' / 90.0, lng' / 180.0, unloading, priority', is_start, x_norm, y_norm,
          dist_from_start])"

definition build_graph_from_stops ::
  "LastMileStop list \<Rightarrow> StopLocation option \<Rightarrow> py_error + real list list \<times> real list list" where
  "build_graph_from_stops all_stops vehicle_pos =
     (let num_stops = length all_stops in
      case (case vehicle_pos of
              Some v \<Rightarrow> Inr v
            | None \<Rightarrow> (case all_stops of [] \<Rightarrow> Inl IndexError | s # rest \<Rightarrow> Inr (coordinates s))) of
        Inl e \<Rightarrow> Inl e
      | Inr start \<Rightarrow>
          (let node_features = map (\<lambda>(i, stop). node_feature_row start i stop) (enumerate 0 all_stops);
               ones_minus_eye =
                 map (\<lambda>i. map (\<lambda>j. if i = j then 0 else (1::real)) [0..<num_stops]) [0..<num_stops];
               adjacency_matrix = map (\<lambda>row. map (\<lambda>x. x / sum_list row) row) ones_minus_eye
           in Inr (node_features, adjacency_matrix)))"

text \<open>\<open>decode_route_from_scores\<close>.  A masked score \<open>-inf\<close> is \<open>None\<close>; \<open>argmax\<close> returns
  the first index of the greatest entry and raises on an empty row.\<close>

definition mask_scores :: "nat set \<Rightarrow> real list \<Rightarrow> real option list" where
  "mask_scores visited scores =
     map (\<lambda>(v, x). if v \<in> visited then None else Some x) (enumerate 0 scores)"

definition score_gt :: "real option \<Rightarrow> real option \<Rightarrow> bool" where
  "score_gt x y =
     (case x of
        None \<Rightarrow> False
      | Some a \<Rightarrow> (case y of None \<Rightarrow> True | Some b \<Rightarrow> b < a))"

definition argmax_step :: "nat \<times> real option \<Rightarrow> nat \<times> real option \<Rightarrow> nat \<times> real option" where
  "argmax_step best p = (if score_gt (snd p) (snd best) then p else best)"

definition argmax :: "real option list \<Rightarrow> py_error + nat" where
  "argmax scores =
     (case scores of
        [] \<Rightarrow> Inl RuntimeError
      | x # rest \<Rightarrow> Inr (fst (foldl argmax_step (0, x) (enumerate 1 rest))))"

text \<open>One round of \<open>while len(visited) < num_stops\<close> on the state
  \<open>(visited, route, current)\<close>; reading a row or an entry out of range raises
  \<open>IndexError\<close>.\<close>

definition decode_step ::
  "real list list \<Rightarrow> nat set \<times> nat list \<times> nat \<Rightarrow> py_error + nat set \<times> nat list \<times> nat" where
  "decode_step edge_scores st =
     (case st of (visited, route, current) \<Rightarrow>
        if length edge_scores \<le> current then Inl IndexError
        else (let scores = edge_scores ! current in
              if \<exists>v\<in>visited. length scores \<le> v then Inl IndexError
              else (case argmax (mask_scores visited scores) of
                      Inl e \<Rightarrow> Inl e
                    | Inr next_node \<Rightarrow>
                        Inr (insert next_node visited, route @ [next_node], next_node))))"

partial_function (option) decode_loop ::
  "real list list \<Rightarrow> nat \<Rightarrow> nat set \<times> nat list \<times> nat \<Rightarrow> (py_error + nat list) option" where
  "decode_loop edge_scores num_stops st =
     (if card (fst st) < num_stops
      then (case decode_step edge_scores st of
              Inl e \<Rightarrow> Some (Inl e)
            | Inr st' \<Rightarrow> decode_loop edge_scores num_stops st')
      else Some (Inr (fst (snd st))))"

definition decode_route_from_scores ::
  "real list list \<Rightarrow> nat \<Rightarrow> (py_error + nat list) option" where
  "decode_route_from_scores edge_scores num_stops = decode_loop edge_scores num_stops ({0}, [0], 0)"

text \<open>\<open>edge_scores.std()\<close>: the sample standard deviation (divisor \<open>n - 1\<close>) of all
  entries.\<close>

definition tensor_std :: "real list list \<Rightarrow> real" where
  "tensor_std m =
     (let xs = concat m;
          n = real (length xs);
          mean = sum_list xs / n
      in sqrt (sum_list (map (\<lambda>x. (x - mean)\<^sup>2) xs) / (n - 1)))"

fun route_path_loop :: "LastMileStop list \<Rightarrow> string list \<Rightarrow> py_error + StopLocation list" where
  "route_path_loop all_stops [] = Inr []"
| "route_path_loop all_stops (stop_id # rest) =
     (case find_stop all_stops stop_id of
        Inl e \<Rightarrow> Inl e
      | Inr stop \<Rightarrow> map_sum id ((#) (coordinates stop)) (route_path_loop all_stops rest))"

text \<open>The body of the \<open>try\<close> of \<open>ml_optimize_last_mile\<close> after decoding.\<close>

definition ml_finish ::
  "LastMileRequest \<Rightarrow> real list list \<Rightarrow> nat list \<Rightarrow> py_error + LastMileResponse" where
  "ml_finish request edge_scores optimized_indices =
     (let all_stops = stops request in
      if \<exists>i\<in>set optimized_indices. length all_stops \<le> i then Inl IndexError
      else
        (let optimized_seq = map (\<lambda>i. id_l (all_stops ! i)) optimized_indices;
             current_seq = (case currentSequence request of
                              None \<Rightarrow> map id_l all_stops
                            | Some cs \<Rightarrow> if cs = [] then map id_l all_stops else cs)
         in case calculate_sequence_total_distance current_seq all_stops (vehiclePosition request) of
              Inl e \<Rightarrow> Inl e
            | Inr current_dist \<Rightarrow>
         (case calculate_sequence_total_distance optimized_seq all_stops (vehiclePosition request) of
              Inl e \<Rightarrow> Inl e
            | Inr optimized_dist \<Rightarrow>
         (case route_path_loop all_stops optimized_seq of
              Inl e \<Rightarrow> Inl e
            | Inr path \<Rightarrow>
         (case build_segment_durations optimized_seq all_stops (vehiclePosition request) of
              Inl e \<Rightarrow> Inl e
            | Inr segs \<Rightarrow>
                (let distance_savings = max 0 (current_dist - optimized_dist);
                     time_savings = distance_savings * 2;
                     n = (if all_stops = [] then None else Some (real (length all_stops)))
                 in Inr \<lparr>optimized_sequence = optimized_seq,
                         time_savings_minutes = time_savings,
                         distance_savings_miles = distance_savings,
                         confidence_l = min 0.95 (0.7 + tensor_std edge_scores * 0.5),
                         route_path =
                           (case vehiclePosition request of None \<Rightarrow> [] | Some v \<Rightarrow> [v]) @ path,
                         segment_durations = segs,
                         reasoning =
                           ''Optimized using Graph Neural Network (GNN) model with 87.5% accuracy'',
                         comparison_metrics =
                           \<lparr>currentRoute =
                              \<lparr>totalDistance = current_dist,
                               totalTime = current_dist * 2,
                               averageStopDistance =
                                 (case n of None \<Rightarrow> 0 | Some k \<Rightarrow> current_dist / k)\<rparr>,
                            optimizedRoute =
                              \<lparr>totalDistance = optimized_dist,
                               totalTime = optimized_dist * 2,
                               averageStopDistance =
                                 (case n of None \<Rightarrow> 0 | Some k \<Rightarrow> optimized_dist / k)\<rparr>\<rparr>\<rparr>))))))"

text \<open>The whole body of the \<open>try\<close>: \<open>Some (Inl e)\<close> is an exception raised inside it,
  \<open>None\<close> a decoding loop that does not end.\<close>

definition ml_try ::
  "scoring_model \<Rightarrow> LastMileRequest \<Rightarrow> (py_error + LastMileResponse) option" where
  "ml_try model request =
     (case build_graph_from_stops (stops request) (vehiclePosition request) of
        Inl e \<Rightarrow> Some (Inl e)
      | Inr (node_features, adjacency_matrix) \<Rightarrow>
          (case model node_features adjacency_matrix of
             Inl e \<Rightarrow> Some (Inl e)
           | Inr edge_scores \<Rightarrow>
               (case decode_route_from_scores edge_scores (length (stops request)) of
                  None \<Rightarrow> None
                | Some (Inl e) \<Rightarrow> Some (Inl e)
                | Some (Inr optimized_indices) \<Rightarrow>
                    Some (ml_finish request edge_scores optimized_indices))))"

definition ml_optimize_last_mile ::
  "scoring_model option \<Rightarrow> LastMileRequest \<Rightarrow> (py_error + LastMileResponse) option" where
  "ml_optimize_last_mile TRAINED_MODEL request =
     (case TRAINED_MODEL of
        None \<Rightarrow> heuristic_optimize_last_mile request
      | Some model \<Rightarrow>
          if length (stops request) \<le> 1 then heuristic_optimize_last_mile request
          else (case ml_try model request of
                  None \<Rightarrow> None
                | Some (Inl e) \<Rightarrow> heuristic_optimize_last_mile request
                | Some (Inr result) \<Rightarrow> Some (Inr result)))"

text \<open>The endpoint turns every exception that reaches it into an HTTP 500 error.\<close>

definition optimize_last_mile ::
  "scoring_model option \<Rightarrow> LastMileRequest \<Rightarrow> (py_error + LastMileResponse) option" where
  "optimize_last_mile TRAINED_MODEL request =
     (case ml_optimize_last_mile TRAINED_MODEL request of
        None \<Rightarrow> None
      | Some (Inl e) \<Rightarrow> Some (Inl HTTPException)
      | Some (Inr result) \<Rightarrow> Some (Inr result))"

section \<open>Well-formed requests\<close>

text \<open>A last-mile request with valid identifiers: no stop has the empty string as its
  identifier, and a current sequence names only stops of the request.  (Valid
  coordinates are part of the type \<open>StopLocation\<close>.)\<close>

definition wf_request :: "LastMileRequest \<Rightarrow> bool" where
  "wf_request request \<longleftrightarrow>
     (\<forall>s\<in>set (stops request). id_l s \<noteq> [])
     \<and> (case currentSequence request of
          None \<Rightarrow> True
        | Some cs \<Rightarrow> set cs \<subseteq> id_l ` set (stops request))"

text \<open>A scoring model that keeps the shape of its interface: what it returns is a
  square matrix with one row and one column per node.\<close>

definition square_model :: "scoring_model \<Rightarrow> bool" where
  "square_model model \<longleftrightarrow>
     (\<forall>nf adj m. model nf adj = Inr m \<longrightarrow>
        length m = length nf \<and> (\<forall>row\<in>set m. length row = length nf))"

section \<open>Example requests\<close>

text \<open>Two points of the equator, half the circumference apart; their distance is
  \<open>6371 * pi\<close> kilometres.\<close>

definition origin :: StopLocation where
  "origin = \<lparr>lat = 0, lng = 0\<rparr>"

definition antipode :: StopLocation where
  "antipode = \<lparr>lat = 0, lng = 180\<rparr>"

definition stop_west :: Stop where
  "stop_west = \<lparr>id_s = ''W'', name_s = ''west'', location = origin,
                  unloadingTimeMinutes = Some 5\<rparr>"

definition stop_east :: Stop where
  "stop_east = \<lparr>id_s = ''E'', name_s = ''east'', location = antipode,
                  unloadingTimeMinutes = None\<rparr>"

definition reroute_request :: "Stop list \<Rightarrow> RerouteRequest" where
  "reroute_request remaining =
     \<lparr>currentLocation = origin,
      remainingStops = remaining,
      currentTraffic = \<lparr>congestionLevel = ''Severe'', currentSpeed = None\<rparr>,
      currentWeather = \<lparr>description = ''clear''\<rparr>,
      timeOfDay = ''morning'',
      dayOfWeek = ''Monday''\<rparr>"

text \<open>A last-mile stop without unloading time, and a model whose every call raises.\<close>

definition lm_stop :: "string \<Rightarrow> StopLocation \<Rightarrow> int option \<Rightarrow> LastMileStop" where
  "lm_stop i loc p =
     \<lparr>id_l = i, name_l = i, coordinates = loc, unloadingTimeMinutes_l = Some 0, priority = p\<rparr>"

definition failing_model :: scoring_model where
  "failing_model node_features adjacency_matrix = Inl (ModelError ''inference failed'')"

text \<open>A model that never raises: from every node it prefers the next one.\<close>

definition chain_model :: scoring_model where
  "chain_model node_features adjacency_matrix =
     (let n = length node_features in
      Inr (map (\<lambda>i. map (\<lambda>j. if j = Suc i then 1 else 0) [0..<n]) [0..<n]))"

section \<open>Properties of the geometry\<close>

lemma haversine_a_convex:
  fixes p1 p2 d :: real
  shows "(sin ((p2 - p1) / 2))\<^sup>2 + cos p1 * cos p2 * (sin d)\<^sup>2 =
         (1 - (sin d)\<^sup>2) * ((1 - cos (p2 - p1)) / 2) + (sin d)\<^sup>2 * ((1 + cos (p1 + p2)) / 2)"
proof -
  have e: "2 * ((p2 - p1) / 2) = p2 - p1"
    by simp
  have h: "(sin ((p2 - p1) / 2))\<^sup>2 = (1 - cos (p2 - p1)) / 2"
    using cos_double_sin [of "(p2 - p1) / 2", unfolded e] by argo
  show ?thesis
    unfolding h cos_diff cos_add by (simp add: field_simps)
qed

lemma haversine_a_bounds: "0 \<le> haversine_a loc1 loc2 \<and> haversine_a loc1 loc2 \<le> 1"
proof -
  define p1 where "p1 = radians (lat loc1)"
  define p2 where "p2 = radians (lat loc2)"
  define d where "d = (radians (lng loc2) - radians (lng loc1)) / 2"
  define s where "s = (sin d)\<^sup>2"
  define A where "A = (1 - cos (p2 - p1)) / 2"
  define B where "B = (1 + cos (p1 + p2)) / 2"
  have a: "haversine_a loc1 loc2 = (1 - s) * A + s * B"
    unfolding haversine_a_def Let_def s_def A_def B_def p1_def p2_def d_def
    by (rule haversine_a_convex)
  have s: "0 \<le> s" "s \<le> 1"
    unfolding s_def by (simp_all add: abs_square_le_1)
  have A: "0 \<le> A" "A \<le> 1"
    unfolding A_def using cos_ge_minus_one [of "p2 - p1"] cos_le_one [of "p2 - p1"] by argo+
  have B: "0 \<le> B" "B \<le> 1"
    unfolding B_def using cos_ge_minus_one [of "p1 + p2"] cos_le_one [of "p1 + p2"] by argo+
  have lo: "0 \<le> (1 - s) * A + s * B"
    using s A B by simp
  have "(1 - s) * A \<le> (1 - s) * 1"
    using s A by (intro mult_left_mono) simp_all
  moreover have "s * B \<le> s * 1"
    using s B by (intro mult_left_mono) simp_all
  ultimately have hi: "(1 - s) * A + s * B \<le> 1"
    by simp
  show ?thesis
    using a lo hi by simp
qed

lemma calculate_distance_km_total:
  "calculate_distance_km loc1 loc2 = Inr (distance_km loc1 loc2)"
  using haversine_a_bounds [of loc1 loc2]
  by (simp add: calculate_distance_km_def distance_from_a_def distance_km_def py_sqrt_def
      Let_def)

lemma haversine_a_sym: "haversine_a loc1 loc2 = haversine_a loc2 loc1"
proof -
  have "sin ((x - y) / 2) ^ 2 = sin ((y - x) / 2) ^ 2" for x y :: real
  proof -
    have "(x - y) / 2 = - ((y - x) / 2)" by (simp add: field_simps)
    then show ?thesis by (simp only: sin_minus power2_minus)
  qed
  then show ?thesis
    by (simp add: haversine_a_def Let_def mult.commute)
qed

lemma haversine_a_same: "haversine_a loc loc = 0"
  by (simp add: haversine_a_def)

lemma distance_km_sym: "distance_km loc1 loc2 = distance_km loc2 loc1"
  by (simp add: distance_km_def haversine_a_sym [of loc1 loc2])

lemma distance_km_same: "distance_km loc loc = 0"
  by (simp add: distance_km_def haversine_a_same atan2_def)

lemma atan2_nonneg: "0 \<le> y \<Longrightarrow> 0 \<le> x \<Longrightarrow> 0 \<le> atan2 y x"
  by (simp add: atan2_def zero_le_arctan_iff)

lemma distance_km_nonneg: "0 \<le> distance_km loc1 loc2"
  using haversine_a_bounds [of loc1 loc2]
  by (simp add: distance_km_def atan2_nonneg)

text \<open>
  Claim C8.  In exact arithmetic the distance is symmetric and is \<open>0\<close> from a point to
  itself, and so it is in doubles.  The code does not keep \<open>a\<close> within \<open>[0, 1]\<close>: in
  doubles the lines that compute \<open>a\<close> give \<open>1.0000000000000002\<close>, that is
  \<open>1 + 2 ^ - 52\<close>, for the coordinates \<open>(8, -86)\<close> and \<open>(-8, 94)\<close>, and
  \<open>- (2 ^ - 53)\<close> for \<open>(144.5, -0.05)\<close> and \<open>(35.5, 179.95)\<close>.  From such a value the
  last lines of the function raise \<open>ValueError\<close>, where the claim promises a finite,
  non-negative result and no error.
\<close>

theorem C8_distance_raises_when_a_leaves_unit_interval:
  "distance_from_a (1 + 1 / 2 ^ 52) = Inl ValueError
   \<and> distance_from_a (- (1 / 2 ^ 53)) = Inl ValueError
   \<and> calculate_distance_km loc1 loc2 = calculate_distance_km loc2 loc1
   \<and> calculate_distance_km loc1 loc1 = Inr 0"
  by (simp add: distance_from_a_def py_sqrt_def calculate_distance_km_total
      distance_km_sym [of loc1 loc2] distance_km_same)

section \<open>Properties of the exhaustive search\<close>

lemma permutations_py_example:
  "permutations_py [1, 2, 3 :: nat] = [[1,2,3],[1,3,2],[2,1,3],[2,3,1],[3,1,2],[3,2,1]]"
  by code_simp

lemma mset_remove_nth:
  "i < length xs \<Longrightarrow> add_mset (xs ! i) (mset (take i xs @ drop (Suc i) xs)) = mset xs"
proof -
  assume "i < length xs"
  then have "xs = take i xs @ xs ! i # drop (Suc i) xs"
    by (rule id_take_nth_drop)
  then have "mset xs = mset (take i xs @ xs ! i # drop (Suc i) xs)"
    by simp
  then show ?thesis
    by simp
qed

lemma permutations_py_Nil: "permutations_py [] = [[]]"
  by (simp add: permutations_py.simps)

lemma set_permutations_py_Cons:
  "xs \<noteq> [] \<Longrightarrow>
   set (permutations_py xs) =
     (\<Union>i\<in>{0..<length xs}. (#) (xs ! i) ` set (permutations_py (take i xs @ drop (Suc i) xs)))"
  by (subst permutations_py.simps) simp

lemma permutations_py_sound: "ys \<in> set (permutations_py xs) \<Longrightarrow> mset ys = mset xs"
proof (induction xs arbitrary: ys rule: permutations_py.induct)
  case (1 xs)
  show ?case
  proof (cases "xs = []")
    case True
    with "1.prems" show ?thesis by (simp add: permutations_py_Nil)
  next
    case False
    with "1.prems" obtain i zs where i: "i < length xs"
      and zs: "zs \<in> set (permutations_py (take i xs @ drop (Suc i) xs))"
      and ys: "ys = xs ! i # zs"
      by (auto simp: set_permutations_py_Cons)
    have "mset zs = mset (take i xs @ drop (Suc i) xs)"
      using "1.IH" [OF False _ zs] i by simp
    then show ?thesis
      using mset_remove_nth [OF i] ys by simp
  qed
qed

lemma permutations_py_complete: "mset ys = mset xs \<Longrightarrow> ys \<in> set (permutations_py xs)"
proof (induction xs arbitrary: ys rule: permutations_py.induct)
  case (1 xs)
  show ?case
  proof (cases "xs = []")
    case True
    with "1.prems" show ?thesis by (simp add: permutations_py_Nil)
  next
    case False
    with "1.prems" obtain y zs where ys: "ys = y # zs"
      by (cases ys) auto
    have "y \<in> set xs"
      using "1.prems" ys by (metis list.set_intros(1) mset_eq_setD)
    then obtain i where i: "i < length xs" and y: "xs ! i = y"
      by (auto simp: in_set_conv_nth)
    have "add_mset y (mset zs) = add_mset y (mset (take i xs @ drop (Suc i) xs))"
      using "1.prems" ys mset_remove_nth [OF i] y by simp
    then have "mset zs = mset (take i xs @ drop (Suc i) xs)"
      by simp
    then have "zs \<in> set (permutations_py (take i xs @ drop (Suc i) xs))"
      using "1.IH" [OF False] i by simp
    then show ?thesis
      using i y ys False by (auto simp: set_permutations_py_Cons)
  qed
qed

lemma permutations_py_nonempty: "permutations_py xs \<noteq> []"
  using permutations_py_complete [of xs xs] by auto

lemma perm_loop_fst:
  "fst (perm_loop speed perm (t, loc, etas)) = t + route_total_time speed loc perm"
  by (induction perm arbitrary: t loc etas) (simp_all add: Let_def)

lemma perm_total_time_eq: "perm_total_time speed cur perm = route_total_time speed cur perm"
  by (simp add: perm_total_time_def perm_loop_fst)

lemma search_step_eq:
  "search_step speed cur best p =
     (if (case best of None \<Rightarrow> True
          | Some (best_time, bs, be) \<Rightarrow> route_total_time speed cur p < best_time)
      then Some (route_total_time speed cur p, map id_s p,
                 snd (snd (perm_loop speed p (0, cur, Map.empty))))
      else best)"
proof (cases "perm_loop speed p (0, cur, Map.empty)")
  case (fields t loc etas)
  have "t = route_total_time speed cur p"
    using perm_loop_fst [of speed p 0 cur Map.empty] fields by simp
  then show ?thesis
    by (simp add: search_step_def fields)
qed

lemma search_fold_first_min:
  assumes "ps \<noteq> []"
  shows "\<exists>k<length ps.
           foldl (search_step speed cur) None ps =
             Some (route_total_time speed cur (ps ! k), map id_s (ps ! k),
                   snd (snd (perm_loop speed (ps ! k) (0, cur, Map.empty))))
           \<and> (\<forall>j<length ps. route_total_time speed cur (ps ! k) \<le> route_total_time speed cur (ps ! j))
           \<and> (\<forall>j<k. route_total_time speed cur (ps ! k) < route_total_time speed cur (ps ! j))"
  using assms
proof (induction ps rule: rev_induct)
  case Nil
  then show ?case by simp
next
  case (snoc p qs)
  let ?c = "route_total_time speed cur"
  show ?case
  proof (cases "qs = []")
    case True
    then show ?thesis
      by (simp add: search_step_eq)
  next
    case False
    from snoc.IH [OF False] obtain k where k: "k < length qs"
      and res: "foldl (search_step speed cur) None qs =
                  Some (?c (qs ! k), map id_s (qs ! k),
                        snd (snd (perm_loop speed (qs ! k) (0, cur, Map.empty))))"
      and le: "\<forall>j<length qs. ?c (qs ! k) \<le> ?c (qs ! j)"
      and lt: "\<forall>j<k. ?c (qs ! k) < ?c (qs ! j)"
      by blast
    show ?thesis
    proof (cases "?c p < ?c (qs ! k)")
      case True
      have "\<forall>j<length qs. ?c p < ?c (qs ! j)"
        using True le by fastforce
      then have "\<forall>j<length (qs @ [p]). ?c ((qs @ [p]) ! length qs) \<le> ?c ((qs @ [p]) ! j)"
        "\<forall>j<length qs. ?c ((qs @ [p]) ! length qs) < ?c ((qs @ [p]) ! j)"
        by (auto simp: nth_append less_Suc_eq)
      moreover have "foldl (search_step speed cur) None (qs @ [p]) =
          Some (?c ((qs @ [p]) ! length qs), map id_s ((qs @ [p]) ! length qs),
                snd (snd (perm_loop speed ((qs @ [p]) ! length qs) (0, cur, Map.empty))))"
        using True by (simp add: res search_step_eq)
      ultimately show ?thesis
        by (intro exI [of _ "length qs"]) simp
    next
      case False
      have "foldl (search_step speed cur) None (qs @ [p]) =
          Some (?c ((qs @ [p]) ! k), map id_s ((qs @ [p]) ! k),
                snd (snd (perm_loop speed ((qs @ [p]) ! k) (0, cur, Map.empty))))"
        using False k by (simp add: res search_step_eq nth_append)
      moreover have "\<forall>j<length (qs @ [p]). ?c ((qs @ [p]) ! k) \<le> ?c ((qs @ [p]) ! j)"
        using False k le by (auto simp: nth_append less_Suc_eq)
      moreover have "\<forall>j<k. ?c ((qs @ [p]) ! k) < ?c ((qs @ [p]) ! j)"
        using k lt by (auto simp: nth_append)
      ultimately show ?thesis
        using k by (intro exI [of _ k]) simp
    qed
  qed
qed

lemma permutations_py_two: "permutations_py [a, b] = [[a, b], [b, a]]"
  by (simp add: permutations_py.simps numeral_2_eq_2 upt_rec)

lemma distance_km_equator_half:
  "distance_km \<lparr>lat = 0, lng = 0\<rparr> \<lparr>lat = 0, lng = 180\<rparr> = 6371 * pi"
  by (simp add: distance_km_def haversine_a_def radians_def atan2_def)

lemma distance_km_equator_half':
  "distance_km \<lparr>lat = 0, lng = 180\<rparr> \<lparr>lat = 0, lng = 0\<rparr> = 6371 * pi"
  by (simp add: distance_km_sym [of "\<lparr>lat = 0, lng = 180\<rparr>"] distance_km_equator_half)

lemma exhaustive_search_reroute_result:
  "\<exists>k<length (permutations_py (remainingStops request)).
     exhaustive_search_reroute request =
       Inr \<lparr>optimizedSequence = map id_s (permutations_py (remainingStops request) ! k),
            estimatedETAs =
              snd (snd (perm_loop (base_speed_kmh request)
                          (permutations_py (remainingStops request) ! k)
                          (0, currentLocation request, Map.empty))),
            timeSavings = 0,
            confidence = 0.75,
            method_r = ''heuristic'',
            reason = ''Exhaustive search over ''
                       @ str_nat (length (permutations_py (remainingStops request)))
                       @ '' permutations''\<rparr>
     \<and> (\<forall>j<length (permutations_py (remainingStops request)).
            route_total_time (base_speed_kmh request) (currentLocation request)
              (permutations_py (remainingStops request) ! k)
            \<le> route_total_time (base_speed_kmh request) (currentLocation request)
                 (permutations_py (remainingStops request) ! j))
     \<and> (\<forall>j<k.
            route_total_time (base_speed_kmh request) (currentLocation request)
              (permutations_py (remainingStops request) ! k)
            < route_total_time (base_speed_kmh request) (currentLocation request)
                (permutations_py (remainingStops request) ! j))"
proof -
  obtain k where k: "k < length (permutations_py (remainingStops request))"
    and res: "foldl (search_step (base_speed_kmh request) (currentLocation request)) None
                (permutations_py (remainingStops request)) =
              Some (route_total_time (base_speed_kmh request) (currentLocation request)
                      (permutations_py (remainingStops request) ! k),
                    map id_s (permutations_py (remainingStops request) ! k),
                    snd (snd (perm_loop (base_speed_kmh request)
                                (permutations_py (remainingStops request) ! k)
                                (0, currentLocation request, Map.empty))))"
    and le: "\<forall>j<length (permutations_py (remainingStops request)).
            route_total_time (base_speed_kmh request) (currentLocation request)
              (permutations_py (remainingStops request) ! k)
            \<le> route_total_time (base_speed_kmh request) (currentLocation request)
                 (permutations_py (remainingStops request) ! j)"
    and lt: "\<forall>j<k.
            route_total_time (base_speed_kmh request) (currentLocation request)
              (permutations_py (remainingStops request) ! k)
            < route_total_time (base_speed_kmh request) (currentLocation request)
                (permutations_py (remainingStops request) ! j)"
    using search_fold_first_min [OF permutations_py_nonempty,
        of "remainingStops request" "base_speed_kmh request" "currentLocation request"]
    by blast
  have "exhaustive_search_reroute request =
       Inr \<lparr>optimizedSequence = map id_s (permutations_py (remainingStops request) ! k),
            estimatedETAs =
              snd (snd (perm_loop (base_speed_kmh request)
                          (permutations_py (remainingStops request) ! k)
                          (0, currentLocation request, Map.empty))),
            timeSavings = 0,
            confidence = 0.75,
            method_r = ''heuristic'',
            reason = ''Exhaustive search over ''
                       @ str_nat (length (permutations_py (remainingStops request)))
                       @ '' permutations''\<rparr>"
    by (simp add: exhaustive_search_reroute_def Let_def res)
  with k le lt show ?thesis
    by blast
qed

lemma distance_km_origin_antipode [simp]:
  "distance_km origin antipode = 6371 * pi" "distance_km antipode origin = 6371 * pi"
  "distance_km origin origin = 0" "distance_km antipode antipode = 0"
  by (simp_all add: origin_def antipode_def distance_km_equator_half distance_km_equator_half'
      distance_km_same)

lemma base_speed_example: "base_speed_kmh (reroute_request remaining) = 64"
  by (simp add: reroute_request_def base_speed_kmh_def get_traffic_multiplier_def
      traffic_mapping_def py_lower_def lower_char_def)

lemma reroute_request_sel:
  "remainingStops (reroute_request remaining) = remaining"
  "currentLocation (reroute_request remaining) = origin"
  by (simp_all add: reroute_request_def)

lemma exhaustive_example:
  "exhaustive_search_reroute (reroute_request [stop_east, stop_west]) =
     Inr \<lparr>optimizedSequence = [''W'', ''E''],
          estimatedETAs = [''W'' \<mapsto> 5, ''E'' \<mapsto> 5 + 6371 * pi / 64 * 60],
          timeSavings = 0,
          confidence = 0.75,
          method_r = ''heuristic'',
          reason = ''Exhaustive search over 2 permutations''\<rparr>"
  by (simp add: exhaustive_search_reroute_def reroute_request_sel base_speed_example
      permutations_py_two Let_def search_step_def stop_east_def stop_west_def unloading_or_0_def
      fun_upd_twist)

section \<open>Properties of the exhaustive search on the machine's doubles\<close>

lemma search_step_fp_Inl [simp]: "search_step_fp ops speed cur (Inl e) perm = Inl e"
  by (simp add: search_step_fp_def)

lemma search_fold_fp_Inl [simp]: "foldl (search_step_fp ops speed cur) (Inl e) ps = Inl e"
  by (induction ps) simp_all





lemma base_speed_kmh_nonzero: "base_speed_kmh request \<noteq> 0"
proof -
  have "get_traffic_multiplier l \<noteq> 0" for l
    by (auto simp: get_traffic_multiplier_def traffic_mapping_def split: option.splits if_splits)
  then show ?thesis
    by (simp add: base_speed_kmh_def)
qed

lemma perm_loop_fp_exact:
  "speed \<noteq> 0 \<Longrightarrow> perm_loop_fp exact_ops speed perm st = Inr (perm_loop speed perm st)"
proof (induction perm arbitrary: st)
  case Nil
  then show ?case by simp
next
  case (Cons stop rest)
  obtain t loc etas where st: "st = (t, loc, etas)"
    by (cases st)
  show ?case
    unfolding st
    using Cons
    by (simp add: exact_ops_def fp_divide_def calculate_distance_km_total Let_def)
qed


lemma search_fold_fp_exact:
  "speed \<noteq> 0 \<Longrightarrow>
   foldl (search_step_fp exact_ops speed cur) (Inr best) ps =
     Inr (foldl (search_step speed cur) best ps)"
proof (induction ps arbitrary: best)
  case Nil
  then show ?case by simp
next
  case (Cons p ps)
  have "search_step_fp exact_ops speed cur (Inr best) p = Inr (search_step speed cur best p)"
    using Cons.prems
    by (cases "perm_loop speed p (0, cur, Map.empty)")
      (simp add: search_step_fp_def search_step_def perm_loop_fp_exact)
  with Cons show ?case
    by simp
qed

text \<open>With the exact operations the search on doubles is the exact model.\<close>

lemma exhaustive_search_fp_exact:
  "exhaustive_search_fp exact_ops request = exhaustive_search_reroute request"
proof -
  have s: "fp_base_speed_kmh exact_ops request = base_speed_kmh request"
    by (simp add: fp_base_speed_kmh_def base_speed_kmh_def exact_ops_def)
  show ?thesis
    unfolding exhaustive_search_fp_def exhaustive_search_reroute_def Let_def s
    by (simp add: search_fold_fp_exact [OF base_speed_kmh_nonzero] split: option.splits)
qed



section \<open>Properties of the nearest-neighbour loop of \<open>heuristic_reroute\<close>\<close>

lemma nearest_fold_bound:
  "fst acc < n \<Longrightarrow> fst (foldl (nearest_step cur) acc (enumerate n xs)) < n + length xs"
proof (induction xs arbitrary: acc n)
  case Nil
  then show ?case by simp
next
  case (Cons x xs)
  have "fst (nearest_step cur acc (n, x)) < Suc n"
    using Cons.prems by (cases acc) (simp add: nearest_step_def Let_def)
  from Cons.IH [OF this] show ?case
    by simp
qed

lemma find_nearest_bound: "fst (find_nearest cur stop0 rest) < Suc (length rest)"
  using nearest_fold_bound [of "(0, distance_km cur (location stop0))" 1 cur rest]
  by (simp add: find_nearest_def)

lemma mset_map_remove_nth:
  assumes "i < length xs"
  shows "mset (map f xs) = add_mset (f (xs ! i)) (mset (map f (take i xs @ drop (Suc i) xs)))"
proof -
  have "image_mset f (mset xs) =
        image_mset f (add_mset (xs ! i) (mset (take i xs @ drop (Suc i) xs)))"
    by (simp only: mset_remove_nth [OF assms])
  then show ?thesis
    by simp
qed

lemma nn_loop_returns:
  "\<exists>seq etas'. nn_loop speed cur remaining opt t etas = Inr (seq, etas')
      \<and> mset seq = mset opt + mset (map id_s remaining)"
proof (induction speed cur remaining opt t etas rule: nn_loop.induct)
  case (1 speed current_loc optimized_sequence cumulative_time etas)
  then show ?case by simp
next
  case (2 speed current_loc stop0 rest optimized_sequence cumulative_time etas)
  let ?i = "fst (find_nearest current_loc stop0 rest)"
  let ?rem = "stop0 # rest"
  have i: "?i < length ?rem"
    using find_nearest_bound [of current_loc stop0 rest] by simp
  let ?next = "?rem ! ?i"
  let ?rem' = "take ?i ?rem @ drop (Suc ?i) ?rem"
  let ?t = "cumulative_time
              + (snd (find_nearest current_loc stop0 rest) / speed * 60
                 + real_of_int (unloading_or_0 (unloadingTimeMinutes ?next)))"
  have step: "nn_loop speed current_loc ?rem optimized_sequence cumulative_time etas =
              nn_loop speed (location ?next) ?rem' (optimized_sequence @ [id_s ?next]) ?t
                (etas(id_s ?next \<mapsto> ?t))"
    using i by (simp add: Let_def)
  from "2.IH" [OF refl refl refl i refl refl refl refl refl]
  obtain seq etas' where
    a: "nn_loop speed (location ?next) ?rem' (optimized_sequence @ [id_s ?next]) ?t
          (etas(id_s ?next \<mapsto> ?t)) = Inr (seq, etas')"
    and b: "mset seq = mset (optimized_sequence @ [id_s ?next]) + mset (map id_s ?rem')"
    by blast
  have "mset (map id_s ?rem) = add_mset (id_s ?next) (mset (map id_s ?rem'))"
    using i by (rule mset_map_remove_nth)
  with b have "mset seq = mset optimized_sequence + mset (map id_s ?rem)"
    by (simp only: mset_append mset.simps) simp
  with a step show ?case
    by (intro exI [of _ seq] exI [of _ etas']) (simp only: simp_thms)
qed

section \<open>The cascade of \<open>/api/reroute\<close>\<close>

lemma ml_reroute_eq: "ml_reroute TRAINED_MODEL request = heuristic_reroute request"
  by (cases TRAINED_MODEL; cases "heuristic_reroute request") (simp_all add: ml_reroute_def)

lemma heuristic_reroute_method:
  "\<exists>r. heuristic_reroute request = Inr r \<and> method_r r = ''heuristic''"
proof -
  consider "length (remainingStops request) \<le> 1"
    | "2 \<le> length (remainingStops request)" "length (remainingStops request) \<le> 6"
    | "6 < length (remainingStops request)"
    by linarith
  then show ?thesis
  proof cases
    case 1
    then show ?thesis
      by (simp add: heuristic_reroute_def Let_def)
  next
    case 2
    from exhaustive_search_reroute_result [of request]
    obtain r where "exhaustive_search_reroute request = Inr r" "method_r r = ''heuristic''"
      by force
    with 2 show ?thesis
      by (simp add: heuristic_reroute_def Let_def)
  next
    case 3
    from nn_loop_returns [of "base_speed_kmh request" "currentLocation request"
        "remainingStops request" "[]" 0 Map.empty]
    obtain seq etas where
      "nn_loop (base_speed_kmh request) (currentLocation request) (remainingStops request)
         [] 0 Map.empty = Inr (seq, etas)"
      by blast
    with 3 show ?thesis
      by (simp add: heuristic_reroute_def nearest_neighbor_reroute_def Let_def)
  qed
qed

lemma ml_try_failing:
  assumes "\<forall>nf adj. \<exists>e. model nf adj = Inl e"
  shows "\<exists>e. ml_try model request = Some (Inl e)"
proof (cases "build_graph_from_stops (stops request) (vehiclePosition request)")
  case (Inl e)
  then show ?thesis
    by (simp add: ml_try_def)
next
  case (Inr g)
  obtain nf adj where g: "g = (nf, adj)"
    by (cases g)
  from assms obtain e where "model nf adj = Inl e"
    by blast
  with Inr g show ?thesis
    by (simp add: ml_try_def)
qed

text \<open>
  Claim C2, amended.  With no model loaded, or a model that raises on every call, the
  \<open>/api/reroute\<close> cascade hands a request of 2 to 6 stops to the exhaustive search and
  a request of more than 6 stops to the nearest-neighbour loop; the method field of a
  returned result is \<open>heuristic\<close> in both cases (the field never reads \<open>exact\<close> or \<open>ml\<close>).
  The last-mile cascade has no exhaustive search: there such a model sends every request
  to \<open>heuristic_optimize_last_mile\<close>.
\<close>

theorem C2_cascade_without_model:
  assumes "TRAINED_MODEL = None
           \<or> (\<exists>model. TRAINED_MODEL = Some model \<and> (\<forall>nf adj. \<exists>e. model nf adj = Inl e))"
  shows "(2 \<le> length (remainingStops request) \<and> length (remainingStops request) \<le> 6 \<longrightarrow>
            ml_reroute TRAINED_MODEL request = exhaustive_search_reroute request)
       \<and> (6 < length (remainingStops request) \<longrightarrow>
            ml_reroute TRAINED_MODEL request = nearest_neighbor_reroute request)
       \<and> (\<forall>r. ml_reroute TRAINED_MODEL request = Inr r \<longrightarrow> method_r r = ''heuristic'')
       \<and> ml_optimize_last_mile TRAINED_MODEL lm_request = heuristic_optimize_last_mile lm_request"
proof -
  have a: "ml_reroute TRAINED_MODEL request = exhaustive_search_reroute request"
    if "2 \<le> length (remainingStops request)" "length (remainingStops request) \<le> 6"
    using that by (simp add: ml_reroute_eq heuristic_reroute_def Let_def)
  have b: "ml_reroute TRAINED_MODEL request = nearest_neighbor_reroute request"
    if "6 < length (remainingStops request)"
    using that by (simp add: ml_reroute_eq heuristic_reroute_def Let_def)
  have c: "method_r r = ''heuristic''" if "ml_reroute TRAINED_MODEL request = Inr r" for r
    using that heuristic_reroute_method [of request] by (auto simp: ml_reroute_eq)
  have d: "ml_optimize_last_mile TRAINED_MODEL lm_request = heuristic_optimize_last_mile lm_request"
  proof (cases TRAINED_MODEL)
    case None
    then show ?thesis
      by (simp add: ml_optimize_last_mile_def)
  next
    case (Some model)
    with assms have "\<forall>nf adj. \<exists>e. model nf adj = Inl e"
      by simp
    from ml_try_failing [OF this, of lm_request] obtain e where
      "ml_try model lm_request = Some (Inl e)"
      by blast
    with Some show ?thesis
      by (simp add: ml_optimize_last_mile_def)
  qed
  from a b c d show ?thesis
    by blast
qed

theorem C2_cascade_without_model_witness:
  "ml_reroute (Some failing_model) (reroute_request [stop_east, stop_west])
     = exhaustive_search_reroute (reroute_request [stop_east, stop_west])
   \<and> ml_reroute (Some failing_model) (reroute_request (replicate 7 stop_west))
     = nearest_neighbor_reroute (reroute_request (replicate 7 stop_west))
   \<and> (\<exists>r. ml_reroute (Some failing_model) (reroute_request [stop_east, stop_west]) = Inr r
          \<and> method_r r = ''heuristic'')
   \<and> ml_optimize_last_mile (Some failing_model)
        \<lparr>stops = [lm_stop ''A'' origin None, lm_stop ''B'' antipode None],
         vehiclePosition = None, currentSequence = None\<rparr>
     = heuristic_optimize_last_mile
        \<lparr>stops = [lm_stop ''A'' origin None, lm_stop ''B'' antipode None],
         vehiclePosition = None, currentSequence = None\<rparr>"
proof -
  have m: "Some failing_model = None
           \<or> (\<exists>model. Some failing_model = Some model \<and> (\<forall>nf adj. \<exists>e. model nf adj = Inl e))"
    by (simp add: failing_model_def)
  have h2: "2 \<le> length (remainingStops (reroute_request [stop_east, stop_west]))
            \<and> length (remainingStops (reroute_request [stop_east, stop_west])) \<le> 6"
    by (simp add: reroute_request_sel)
  have h7: "6 < length (remainingStops (reroute_request (replicate 7 stop_west)))"
    by (simp add: reroute_request_sel)
  note c2 = C2_cascade_without_model [OF m, where request = "reroute_request [stop_east, stop_west]"
        and lm_request = "\<lparr>stops = [lm_stop ''A'' origin None, lm_stop ''B'' antipode None],
                           vehiclePosition = None, currentSequence = None\<rparr>"]
  obtain r where r: "ml_reroute (Some failing_model) (reroute_request [stop_east, stop_west]) = Inr r"
    by (simp add: ml_reroute_eq heuristic_reroute_def reroute_request_sel exhaustive_example)
  with c2 have "method_r r = ''heuristic''"
    by blast
  with r show ?thesis
    using h2 h7 c2
      C2_cascade_without_model [OF m, where request = "reroute_request (replicate 7 stop_west)"
        and lm_request = "\<lparr>stops = [lm_stop ''A'' origin None, lm_stop ''B'' antipode None],
                           vehiclePosition = None, currentSequence = None\<rparr>"]
    by blast
qed

theorem C2_method_exact_counterexample:
  "map_sum id method_r (ml_reroute None (reroute_request [stop_east, stop_west]))
     = Inr ''heuristic''
   \<and> map_sum id method_r (ml_reroute None (reroute_request [stop_east, stop_west]))
     \<noteq> Inr ''exact''"
  by (simp add: ml_reroute_def heuristic_reroute_def reroute_request_sel exhaustive_example)

section \<open>Single stops and unknown traffic levels\<close>

text \<open>
  Claim C9.  A last-mile request with exactly one stop gets that stop's identifier as
  its sequence, zero distance and time savings and confidence 1, whatever the model is
  (the result does not depend on it: neither the model nor the greedy loop runs); the
  same holds for the sequence, time savings and confidence of \<open>/api/reroute\<close>.
\<close>

theorem C9_single_stop:
  assumes "stops request = [s]" and "remainingStops request' = [s']"
  shows "optimize_last_mile TRAINED_MODEL request =
           Some (Inr \<lparr>optimized_sequence = [id_l s],
                      time_savings_minutes = 0,
                      distance_savings_miles = 0,
                      confidence_l = 1,
                      route_path = [coordinates s],
                      segment_durations = [],
                      reasoning = ''Single stop - no optimization needed'',
                      comparison_metrics =
                        \<lparr>currentRoute =
                           \<lparr>totalDistance = 0, totalTime = 0, averageStopDistance = 0\<rparr>,
                         optimizedRoute =
                           \<lparr>totalDistance = 0, totalTime = 0, averageStopDistance = 0\<rparr>\<rparr>\<rparr>)
       \<and> reroute TRAINED_MODEL request' =
           Inr \<lparr>optimizedSequence = [id_s s'],
                estimatedETAs = [id_s s' \<mapsto> 0],
                timeSavings = 0,
                confidence = 1,
                method_r = ''heuristic'',
                reason = ''Only one stop remaining''\<rparr>"
proof -
  have "heuristic_optimize_last_mile request =
           Some (Inr \<lparr>optimized_sequence = [id_l s],
                      time_savings_minutes = 0,
                      distance_savings_miles = 0,
                      confidence_l = 1,
                      route_path = [coordinates s],
                      segment_durations = [],
                      reasoning = ''Single stop - no optimization needed'',
                      comparison_metrics =
                        \<lparr>currentRoute =
                           \<lparr>totalDistance = 0, totalTime = 0, averageStopDistance = 0\<rparr>,
                         optimizedRoute =
                           \<lparr>totalDistance = 0, totalTime = 0, averageStopDistance = 0\<rparr>\<rparr>\<rparr>)"
    using assms(1) by (simp add: heuristic_optimize_last_mile_def)
  moreover have "ml_optimize_last_mile TRAINED_MODEL request = heuristic_optimize_last_mile request"
    using assms(1) by (cases TRAINED_MODEL) (simp_all add: ml_optimize_last_mile_def)
  moreover have "heuristic_reroute request' =
           Inr \<lparr>optimizedSequence = [id_s s'],
                estimatedETAs = [id_s s' \<mapsto> 0],
                timeSavings = 0,
                confidence = 1,
                method_r = ''heuristic'',
                reason = ''Only one stop remaining''\<rparr>"
    using assms(2) by (simp add: heuristic_reroute_def)
  ultimately show ?thesis
    by (simp add: optimize_last_mile_def reroute_def ml_reroute_eq)
qed

theorem C9_single_stop_witness:
  "map_option (map_sum id (\<lambda>r. (optimized_sequence r, distance_savings_miles r,
       time_savings_minutes r, confidence_l r)))
     (optimize_last_mile (Some failing_model)
        \<lparr>stops = [lm_stop ''A'' antipode (Some 1)], vehiclePosition = Some origin,
         currentSequence = None\<rparr>)
     = Some (Inr ([''A''], 0, 0, 1))
   \<and> map_sum id (\<lambda>r. (optimizedSequence r, timeSavings r, confidence r))
       (reroute None (reroute_request [stop_east]))
     = Inr ([''E''], 0, 1)"
  using C9_single_stop [of "\<lparr>stops = [lm_stop ''A'' antipode (Some 1)],
      vehiclePosition = Some origin, currentSequence = None\<rparr>" "lm_stop ''A'' antipode (Some 1)"
      "reroute_request [stop_east]" stop_east "Some failing_model"]
    C9_single_stop [of "\<lparr>stops = [lm_stop ''A'' antipode (Some 1)],
      vehiclePosition = Some origin, currentSequence = None\<rparr>" "lm_stop ''A'' antipode (Some 1)"
      "reroute_request [stop_east]" stop_east None]
  by (simp add: reroute_request_sel lm_stop_def stop_east_def)

lemma perm_loop_etas_last:
  "perm \<noteq> [] \<Longrightarrow>
   snd (snd (perm_loop speed perm (t, loc, etas))) (id_s (last perm))
     = Some (fst (perm_loop speed perm (t, loc, etas)))"
proof (induction perm arbitrary: t loc etas)
  case Nil
  then show ?case by simp
next
  case (Cons stop rest)
  show ?case
  proof (cases "rest = []")
    case True
    then show ?thesis
      by (simp add: Let_def)
  next
    case False
    with Cons.IH show ?thesis
      by (simp add: Let_def)
  qed
qed

lemma nearest_fold_snd:
  assumes "snd acc = distance_km cur (location (f (fst acc)))"
    and "\<forall>i<length xs. xs ! i = f (n + i)"
  shows "snd (foldl (nearest_step cur) acc (enumerate n xs))
           = distance_km cur (location (f (fst (foldl (nearest_step cur) acc (enumerate n xs)))))"
  using assms
proof (induction xs arbitrary: acc n)
  case Nil
  then show ?case by simp
next
  case (Cons x xs)
  have x: "x = f n"
    using Cons.prems(2) by force
  have a: "snd (nearest_step cur acc (n, x))
             = distance_km cur (location (f (fst (nearest_step cur acc (n, x)))))"
    using Cons.prems(1) x by (cases acc) (simp add: nearest_step_def Let_def)
  have b: "\<forall>i<length xs. xs ! i = f (Suc n + i)"
    using Cons.prems(2) by force
  from Cons.IH [OF a b] show ?case
    by simp
qed

lemma find_nearest_snd:
  "snd (find_nearest cur stop0 rest)
     = distance_km cur (location ((stop0 # rest) ! fst (find_nearest cur stop0 rest)))"
  unfolding find_nearest_def
  by (rule nearest_fold_snd) simp_all

text \<open>What the nearest-neighbour loop returns: the stops in some order, and as the last
  ETA the time of that route at the given speed.\<close>

lemma nn_loop_route:
  "nn_loop speed cur remaining opt t etas = Inr (seq, etas') \<Longrightarrow>
   \<exists>q. mset q = mset remaining \<and> seq = opt @ map id_s q
       \<and> (q \<noteq> [] \<longrightarrow> etas' (id_s (last q)) = Some (t + route_total_time speed cur q))
       \<and> (q = [] \<longrightarrow> etas' = etas)"
proof (induction speed cur remaining opt t etas arbitrary: seq etas' rule: nn_loop.induct)
  case (1 speed current_loc optimized_sequence cumulative_time etas)
  then show ?case by simp
next
  case (2 speed current_loc stop0 rest optimized_sequence cumulative_time etas)
  let ?i = "fst (find_nearest current_loc stop0 rest)"
  let ?rem = "stop0 # rest"
  let ?next = "?rem ! ?i"
  let ?rem' = "take ?i ?rem @ drop (Suc ?i) ?rem"
  let ?d = "snd (find_nearest current_loc stop0 rest)"
  let ?t = "cumulative_time
              + (?d / speed * 60 + real_of_int (unloading_or_0 (unloadingTimeMinutes ?next)))"
  have i: "?i < length ?rem"
    using find_nearest_bound [of current_loc stop0 rest] by simp
  have d: "?d = distance_km current_loc (location ?next)"
    by (rule find_nearest_snd)
  have step: "nn_loop speed current_loc ?rem optimized_sequence cumulative_time etas =
              nn_loop speed (location ?next) ?rem' (optimized_sequence @ [id_s ?next]) ?t
                (etas(id_s ?next \<mapsto> ?t))"
    using i by (simp add: Let_def)
  with "2.prems" have r: "nn_loop speed (location ?next) ?rem' (optimized_sequence @ [id_s ?next]) ?t
                (etas(id_s ?next \<mapsto> ?t)) = Inr (seq, etas')"
    by simp
  from "2.IH" [OF refl refl refl i refl refl refl refl refl r]
  obtain q where q: "mset q = mset ?rem'" "seq = (optimized_sequence @ [id_s ?next]) @ map id_s q"
    "q \<noteq> [] \<longrightarrow> etas' (id_s (last q)) = Some (?t + route_total_time speed (location ?next) q)"
    "q = [] \<longrightarrow> etas' = etas(id_s ?next \<mapsto> ?t)"
    by blast
  have m: "mset (?next # q) = mset ?rem"
    using q(1) mset_remove_nth [OF i] by simp
  have s: "seq = optimized_sequence @ map id_s (?next # q)"
    using q(2) by simp
  have e: "etas' (id_s (last (?next # q)))
             = Some (cumulative_time + route_total_time speed current_loc (?next # q))"
  proof (cases "q = []")
    case True
    with q(4) d show ?thesis
      by simp
  next
    case False
    with q(3) d show ?thesis
      by (simp add: add.assoc)
  qed
  from m s e show ?case
    by (intro exI [of _ "?next # q"]) simp
qed

text \<open>
  Claim C10.  A congestion level whose lower-cased form is none of \<open>none\<close>, \<open>light\<close>,
  \<open>moderate\<close>, \<open>heavy\<close> has the multiplier 0.8 and the base speed 64 km/h, and the
  solvers compute their travel times with it: a result of the exhaustive search, of the
  nearest-neighbour loop, and of \<open>heuristic_reroute\<close> for two or more stops, orders the
  stops, and the ETA of its last stop is the time of that route at 64 km/h (distance
  divided by 64, in minutes, plus the unloading times).
\<close>

theorem C10_unknown_traffic_level:
  assumes "py_lower (congestionLevel (currentTraffic request))
             \<notin> {''none'', ''light'', ''moderate'', ''heavy''}"
  shows "get_traffic_multiplier (congestionLevel (currentTraffic request)) = 0.8
       \<and> base_speed_kmh request = 64
       \<and> (\<forall>r. exhaustive_search_reroute request = Inr r \<longrightarrow> eta_at_speed 64 request r)
       \<and> (\<forall>r. nearest_neighbor_reroute request = Inr r \<longrightarrow> eta_at_speed 64 request r)
       \<and> (\<forall>r. 1 < length (remainingStops request) \<and> heuristic_reroute request = Inr r \<longrightarrow>
              eta_at_speed 64 request r)"
proof -
  have m: "get_traffic_multiplier (congestionLevel (currentTraffic request)) = 0.8"
    using assms by (simp add: get_traffic_multiplier_def traffic_mapping_def)
  then have b: "base_speed_kmh request = 64"
    by (simp add: base_speed_kmh_def)
  have ex: "eta_at_speed 64 request r" if "exhaustive_search_reroute request = Inr r" for r
  proof -
    let ?ps = "permutations_py (remainingStops request)"
    from exhaustive_search_reroute_result [of request] that
    obtain k where k: "k < length ?ps"
      and seq: "optimizedSequence r = map id_s (?ps ! k)"
      and etas: "estimatedETAs r
                   = snd (snd (perm_loop 64 (?ps ! k) (0, currentLocation request, Map.empty)))"
      unfolding b by auto
    have "mset (?ps ! k) = mset (remainingStops request)"
      using k by (intro permutations_py_sound) simp
    moreover have "estimatedETAs r (id_s (last (?ps ! k)))
                     = Some (route_total_time 64 (currentLocation request) (?ps ! k))"
      if "?ps ! k \<noteq> []"
      using perm_loop_etas_last [OF that, of 64 0 "currentLocation request" Map.empty]
        perm_loop_fst [of 64 "?ps ! k" 0 "currentLocation request" Map.empty]
      by (simp add: etas)
    ultimately show ?thesis
      using seq by (auto simp: eta_at_speed_def)
  qed
  have nn: "eta_at_speed 64 request r" if "nearest_neighbor_reroute request = Inr r" for r
  proof -
    from that obtain seq etas where
      l: "nn_loop 64 (currentLocation request) (remainingStops request) [] 0 Map.empty
            = Inr (seq, etas)"
      and r: "optimizedSequence r = seq" "estimatedETAs r = etas"
      unfolding nearest_neighbor_reroute_def b by (auto split: sum.splits)
    from nn_loop_route [OF l] r show ?thesis
      by (auto simp: eta_at_speed_def)
  qed
  have "eta_at_speed 64 request r"
    if "1 < length (remainingStops request) \<and> heuristic_reroute request = Inr r" for r
    using that ex nn by (auto simp: heuristic_reroute_def Let_def split: if_splits)
  with m b ex nn show ?thesis
    by blast
qed

theorem C10_unknown_traffic_level_witness:
  "py_lower (congestionLevel (currentTraffic (reroute_request [stop_east, stop_west])))
     \<notin> {''none'', ''light'', ''moderate'', ''heavy''}
   \<and> base_speed_kmh (reroute_request [stop_east, stop_west]) = 64
   \<and> (\<exists>r. heuristic_reroute (reroute_request [stop_east, stop_west]) = Inr r
          \<and> estimatedETAs r ''E'' = Some (5 + 6371 * pi / 64 * 60)
          \<and> eta_at_speed 64 (reroute_request [stop_east, stop_west]) r)
   \<and> (\<exists>r. nearest_neighbor_reroute (reroute_request [stop_east]) = Inr r
          \<and> estimatedETAs r ''E'' = Some (6371 * pi / 64 * 60)
          \<and> eta_at_speed 64 (reroute_request [stop_east]) r)"
proof -
  have h: "py_lower (congestionLevel (currentTraffic (reroute_request ss)))
             \<notin> {''none'', ''light'', ''moderate'', ''heavy''}" for ss
    by (simp add: reroute_request_def py_lower_def lower_char_def)
  note two = C10_unknown_traffic_level [OF h [of "[stop_east, stop_west]"]]
  note one = C10_unknown_traffic_level [OF h [of "[stop_east]"]]
  have r2: "heuristic_reroute (reroute_request [stop_east, stop_west]) =
     Inr \<lparr>optimizedSequence = [''W'', ''E''],
          estimatedETAs = [''W'' \<mapsto> 5, ''E'' \<mapsto> 5 + 6371 * pi / 64 * 60],
          timeSavings = 0,
          confidence = 0.75,
          method_r = ''heuristic'',
          reason = ''Exhaustive search over 2 permutations''\<rparr>"
    by (simp add: heuristic_reroute_def reroute_request_sel exhaustive_example)
  have r1: "nearest_neighbor_reroute (reroute_request [stop_east]) =
     Inr \<lparr>optimizedSequence = [''E''],
          estimatedETAs = [''E'' \<mapsto> 6371 * pi / 64 * 60],
          timeSavings = 0,
          confidence = 0.6,
          method_r = ''heuristic'',
          reason = ''Nearest-neighbor algorithm with traffic awareness''\<rparr>"
    by (simp add: nearest_neighbor_reroute_def reroute_request_sel base_speed_example
        find_nearest_def stop_east_def unloading_or_0_def Let_def)
  have len: "1 < length (remainingStops (reroute_request [stop_east, stop_west]))"
    by (simp add: reroute_request_sel)
  from two r2 len have
    "eta_at_speed 64 (reroute_request [stop_east, stop_west])
       \<lparr>optimizedSequence = [''W'', ''E''],
          estimatedETAs = [''W'' \<mapsto> 5, ''E'' \<mapsto> 5 + 6371 * pi / 64 * 60],
          timeSavings = 0,
          confidence = 0.75,
          method_r = ''heuristic'',
          reason = ''Exhaustive search over 2 permutations''\<rparr>"
    by blast
  moreover from one r1 have
    "eta_at_speed 64 (reroute_request [stop_east])
       \<lparr>optimizedSequence = [''E''],
          estimatedETAs = [''E'' \<mapsto> 6371 * pi / 64 * 60],
          timeSavings = 0,
          confidence = 0.6,
          method_r = ''heuristic'',
          reason = ''Nearest-neighbor algorithm with traffic awareness''\<rparr>"
    by blast
  ultimately show ?thesis
    using h [of "[stop_east, stop_west]"] two r2 r1 by simp
qed

section \<open>Properties of the greedy loop of \<open>heuristic_optimize_last_mile\<close>\<close>

lemma select_nearest_snoc:
  "select_nearest unv cur (xs @ [x]) = select_step unv cur (select_nearest unv cur xs) x"
  by (simp add: select_nearest_def)

lemma select_nearest_spec:
  "case select_nearest unv cur xs of
     None \<Rightarrow> \<forall>s\<in>set xs. id_l s \<notin> unv
   | Some (i, d) \<Rightarrow>
       (\<exists>s\<in>set xs. id_l s = i \<and> i \<in> unv \<and> d = effective_distance cur s)
       \<and> (\<forall>s\<in>set xs. id_l s \<in> unv \<longrightarrow> d \<le> effective_distance cur s)"
proof (induction xs rule: rev_induct)
  case Nil
  then show ?case by (simp add: select_nearest_def)
next
  case (snoc x xs)
  show ?case
  proof (cases "select_nearest unv cur xs")
    case None
    with snoc show ?thesis
      by (simp add: select_nearest_snoc select_step_def Let_def)
  next
    case (Some p)
    obtain i d where p: "p = (i, d)"
      by (cases p)
    from snoc Some p have
      ex: "\<exists>s\<in>set xs. id_l s = i \<and> i \<in> unv \<and> d = effective_distance cur s"
      and le: "\<forall>s\<in>set xs. id_l s \<in> unv \<longrightarrow> d \<le> effective_distance cur s"
      by simp_all
    show ?thesis
    proof (cases "id_l x \<in> unv \<and> effective_distance cur x < d")
      case True
      then have "select_nearest unv cur (xs @ [x]) = Some (id_l x, effective_distance cur x)"
        by (simp add: select_nearest_snoc select_step_def Let_def Some p)
      moreover have "\<forall>s\<in>set (xs @ [x]). id_l s \<in> unv \<longrightarrow>
                        effective_distance cur x \<le> effective_distance cur s"
        using True le by fastforce
      ultimately show ?thesis
        using True by simp
    next
      case False
      then have "select_nearest unv cur (xs @ [x]) = Some (i, d)"
        by (auto simp: select_nearest_snoc select_step_def Let_def Some p)
      moreover have "\<forall>s\<in>set (xs @ [x]). id_l s \<in> unv \<longrightarrow> d \<le> effective_distance cur s"
        using False le by fastforce
      ultimately show ?thesis
        using ex by auto
    qed
  qed
qed

lemma lm_loop_stuck:
  assumes "lm_iter all_stops st = Inr st" and "unvisited st \<noteq> {}"
  shows "lm_loop all_stops st = None"
proof (rule ccontr)
  assume "lm_loop all_stops st \<noteq> None"
  then obtain y where y: "lm_loop all_stops st = Some y"
    by blast
  have "\<not> (lm_iter all_stops st = Inr st \<and> unvisited st \<noteq> {})"
  proof (rule lm_loop.raw_induct
      [where P = "\<lambda>ss s r. \<not> (lm_iter ss s = Inr s \<and> unvisited s \<noteq> {})", OF _ y])
    fix f :: "LastMileStop list \<Rightarrow> lm_state \<Rightarrow> (py_error + lm_state) option"
    fix ss s r
    assume ih: "\<And>ss s r. f ss s = Some r \<Longrightarrow> \<not> (lm_iter ss s = Inr s \<and> unvisited s \<noteq> {})"
      and body: "(if unvisited s = {} then Some (Inr s)
                  else case lm_iter ss s of Inl e \<Rightarrow> Some (Inl e) | Inr st' \<Rightarrow> f ss st') = Some r"
    show "\<not> (lm_iter ss s = Inr s \<and> unvisited s \<noteq> {})"
    proof
      assume a: "lm_iter ss s = Inr s \<and> unvisited s \<noteq> {}"
      with body have "f ss s = Some r"
        by simp
      from ih [OF this] a show False
        by simp
    qed
  qed
  with assms show False
    by simp
qed

lemma find_stop_Inr:
  "stop_id \<in> id_l ` set all_stops \<Longrightarrow>
   \<exists>s\<in>set all_stops. find_stop all_stops stop_id = Inr s \<and> id_l s = stop_id"
proof -
  assume "stop_id \<in> id_l ` set all_stops"
  then have "find (\<lambda>s. id_l s = stop_id) all_stops \<noteq> None"
    by (auto simp: find_None_iff)
  then obtain s where s: "find (\<lambda>s. id_l s = stop_id) all_stops = Some s"
    by blast
  then have "s \<in> set all_stops \<and> id_l s = stop_id"
    by (auto simp: find_Some_iff)
  with s show ?thesis
    by (auto simp: find_stop_def)
qed

text \<open>The invariant of the loop: the identifiers still to visit are identifiers of
  stops, and none of them is the empty string.\<close>

lemma lm_iter_progress:
  assumes "unvisited st \<subseteq> id_l ` set all_stops" and "[] \<notin> unvisited st"
    and "unvisited st \<noteq> {}"
  shows "\<exists>i d s. i \<in> unvisited st \<and> s \<in> set all_stops \<and> id_l s = i
           \<and> lm_iter all_stops st =
               Inr \<lparr>unvisited = unvisited st - {i},
                    optimized = optimized st @ [i],
                    current_loc = coordinates s,
                    total_distance = total_distance st + d,
                    route_path_st = route_path_st st @ [coordinates s]\<rparr>"
proof -
  from assms(1,3) obtain s0 where "s0 \<in> set all_stops" "id_l s0 \<in> unvisited st"
    by blast
  with select_nearest_spec [where unv = "unvisited st" and cur = "current_loc st" and xs = all_stops]
  obtain i d where sel: "select_nearest (unvisited st) (current_loc st) all_stops = Some (i, d)"
    by (cases "select_nearest (unvisited st) (current_loc st) all_stops") auto
  with select_nearest_spec [where unv = "unvisited st" and cur = "current_loc st" and xs = all_stops]
  have i: "i \<in> unvisited st" "i \<in> id_l ` set all_stops"
    by auto
  from find_stop_Inr [OF i(2)] obtain s where
    s: "s \<in> set all_stops" "find_stop all_stops i = Inr s" "id_l s = i"
    by blast
  from i(1) assms(2) have "i \<noteq> []"
    by auto
  with sel s i show ?thesis
    by (auto simp: lm_iter_def)
qed

lemma lm_loop_terminates:
  assumes "finite (unvisited st)" and "unvisited st \<subseteq> id_l ` set all_stops"
    and "[] \<notin> unvisited st"
  shows "\<exists>st'. lm_loop all_stops st = Some (Inr st') \<and> unvisited st' = {}
           \<and> mset (optimized st') = mset (optimized st) + mset_set (unvisited st)"
  using assms
proof (induction "card (unvisited st)" arbitrary: st)
  case 0
  then have "unvisited st = {}"
    by simp
  then show ?case
    by (subst lm_loop.simps) simp
next
  case (Suc n)
  then have ne: "unvisited st \<noteq> {}"
    by auto
  from lm_iter_progress [OF Suc.prems(2,3) ne] obtain i d s where
    i: "i \<in> unvisited st" and "s \<in> set all_stops"
    and it: "lm_iter all_stops st =
               Inr \<lparr>unvisited = unvisited st - {i},
                    optimized = optimized st @ [i],
                    current_loc = coordinates s,
                    total_distance = total_distance st + d,
                    route_path_st = route_path_st st @ [coordinates s]\<rparr>"
    by blast
  let ?st = "\<lparr>unvisited = unvisited st - {i},
              optimized = optimized st @ [i],
              current_loc = coordinates s,
              total_distance = total_distance st + d,
              route_path_st = route_path_st st @ [coordinates s]\<rparr>"
  have c: "n = card (unvisited ?st)"
    using Suc.hyps(2) Suc.prems(1) i by simp
  have "\<exists>st'. lm_loop all_stops ?st = Some (Inr st') \<and> unvisited st' = {}
           \<and> mset (optimized st') = mset (optimized ?st) + mset_set (unvisited ?st)"
    using Suc.prems by (intro Suc.hyps(1) [OF c]) auto
  then obtain st' where st': "lm_loop all_stops ?st = Some (Inr st')" "unvisited st' = {}"
    "mset (optimized st') = mset (optimized ?st) + mset_set (unvisited ?st)"
    by blast
  have "mset_set (unvisited st) = add_mset i (mset_set (unvisited st - {i}))"
    using Suc.prems(1) i by (simp add: mset_set.remove)
  with st'(3) have "mset (optimized st') = mset (optimized st) + mset_set (unvisited st)"
    by simp
  moreover have "lm_loop all_stops st = Some (Inr st')"
    using ne it st'(1) by (subst lm_loop.simps) simp
  ultimately show ?case
    using st'(2) by blast
qed

lemma distance_loop_Inr:
  "set sequence \<subseteq> id_l ` set all_stops \<Longrightarrow>
   \<exists>t. distance_loop all_stops sequence loc total_km = Inr t"
proof (induction sequence arbitrary: loc total_km)
  case Nil
  then show ?case by simp
next
  case (Cons a sequence)
  then have "a \<in> id_l ` set all_stops"
    by simp
  from find_stop_Inr [OF this] obtain s where "find_stop all_stops a = Inr s"
    by blast
  with Cons show ?case
    by simp
qed

lemma calculate_sequence_total_distance_Inr:
  assumes "set sequence \<subseteq> id_l ` set all_stops"
  shows "\<exists>t. calculate_sequence_total_distance sequence all_stops vehicle_pos = Inr t"
proof (cases "sequence = []")
  case True
  then show ?thesis
    by (simp add: calculate_sequence_total_distance_def)
next
  case False
  then have "hd sequence \<in> id_l ` set all_stops"
    using assms by (cases sequence) auto
  from find_stop_Inr [OF this] obtain s where s: "find_stop all_stops (hd sequence) = Inr s"
    by blast
  obtain cur where cur: "(case vehicle_pos of Some v \<Rightarrow> Inr v
      | None \<Rightarrow> map_sum id coordinates (find_stop all_stops (hd sequence))) = Inr cur"
    using s by (cases vehicle_pos) simp_all
  from distance_loop_Inr [OF assms, of cur 0] obtain t where
    "distance_loop all_stops sequence cur 0 = Inr t"
    by blast
  with False cur have
    "calculate_sequence_total_distance sequence all_stops vehicle_pos = Inr (t * 0.621371)"
    by (simp add: calculate_sequence_total_distance_def)
  then show ?thesis
    by blast
qed

lemma segment_loop_Inr:
  "set sequence \<subseteq> id_l ` set all_stops \<Longrightarrow>
   \<exists>segs. segment_loop all_stops sequence prev_loc prev_id segments = Inr segs"
proof (induction sequence arbitrary: prev_loc prev_id segments)
  case Nil
  then show ?case by simp
next
  case (Cons a sequence)
  then have "a \<in> id_l ` set all_stops"
    by simp
  from find_stop_Inr [OF this] obtain s where "find_stop all_stops a = Inr s"
    by blast
  with Cons show ?case
    by (simp add: Let_def)
qed

lemma build_segment_durations_Inr:
  assumes "set sequence \<subseteq> id_l ` set all_stops"
  shows "\<exists>segs. build_segment_durations sequence all_stops vehicle_pos = Inr segs"
proof (cases "sequence = []")
  case True
  then show ?thesis
    by (simp add: build_segment_durations_def)
next
  case False
  then have "hd sequence \<in> id_l ` set all_stops"
    using assms by (cases sequence) auto
  from find_stop_Inr [OF this] obtain s where s: "find_stop all_stops (hd sequence) = Inr s"
    by blast
  obtain p where p: "(case vehicle_pos of Some v \<Rightarrow> Inr (v, ''vehicle'')
      | None \<Rightarrow> map_sum id (\<lambda>first_stop. (coordinates first_stop, hd sequence))
                  (find_stop all_stops (hd sequence))) = Inr p"
    using s by (cases vehicle_pos) simp_all
  obtain l i where li: "p = (l, i)"
    by (cases p)
  from segment_loop_Inr [OF assms, of l i "[]"] obtain segs where
    "segment_loop all_stops sequence l i [] = Inr segs"
    by blast
  with False p li show ?thesis
    by (simp add: build_segment_durations_def)
qed

lemma lm_finish_Inr:
  assumes "wf_request request" and "set (optimized st) \<subseteq> id_l ` set (stops request)"
  shows "\<exists>r. lm_finish request st = Inr r \<and> optimized_sequence r = optimized st
           \<and> confidence_l r = 0.65"
proof -
  let ?cs = "case currentSequence request of
               None \<Rightarrow> map id_l (stops request)
             | Some cs \<Rightarrow> if cs = [] then map id_l (stops request) else cs"
  have "set ?cs \<subseteq> id_l ` set (stops request)"
    using assms(1) by (auto simp: wf_request_def split: option.splits)
  from calculate_sequence_total_distance_Inr [OF this, of "vehiclePosition request"]
  obtain t where t: "calculate_sequence_total_distance ?cs (stops request)
                       (vehiclePosition request) = Inr t"
    by blast
  from build_segment_durations_Inr [OF assms(2), of "vehiclePosition request"]
  obtain segs where "build_segment_durations (optimized st) (stops request)
                       (vehiclePosition request) = Inr segs"
    by blast
  with t show ?thesis
    by (simp add: lm_finish_def Let_def)
qed

lemma heuristic_optimize_last_mile_returns:
  assumes "wf_request request"
  shows "\<exists>r. heuristic_optimize_last_mile request = Some (Inr r)
           \<and> set (optimized_sequence r) = id_l ` set (stops request)
           \<and> (distinct (map id_l (stops request)) \<longrightarrow>
                mset (optimized_sequence r) = mset (map id_l (stops request)))
           \<and> 0 \<le> confidence_l r \<and> confidence_l r \<le> 1"
proof (cases "length (stops request) \<le> 1")
  case True
  then show ?thesis
    by (simp add: heuristic_optimize_last_mile_def Let_def)
next
  case False
  let ?start = "case vehiclePosition request of
                  Some v \<Rightarrow> v
                | None \<Rightarrow> coordinates (hd (stops request))"
  let ?st0 = "\<lparr>unvisited = set (map id_l (stops request)),
               optimized = [],
               current_loc = ?start,
               total_distance = 0,
               route_path_st = [?start]\<rparr>"
  have "[] \<notin> unvisited ?st0"
    using assms by (auto simp: wf_request_def)
  with lm_loop_terminates [of ?st0 "stops request"]
  obtain st' where st': "lm_loop (stops request) ?st0 = Some (Inr st')"
    and m: "mset (optimized st') = mset_set (set (map id_l (stops request)))"
    by auto
  from m have "set_mset (mset (optimized st')) = set_mset (mset_set (set (map id_l (stops request))))"
    by simp
  then have s: "set (optimized st') = id_l ` set (stops request)"
    by simp
  from lm_finish_Inr [OF assms, of st'] s
  obtain r where r: "lm_finish request st' = Inr r" "optimized_sequence r = optimized st'"
    "confidence_l r = 0.65"
    by auto
  have "heuristic_optimize_last_mile request = Some (Inr r)"
    using False st' r(1) by (simp add: heuristic_optimize_last_mile_def Let_def)
  moreover have "mset (optimized_sequence r) = mset (map id_l (stops request))"
    if "distinct (map id_l (stops request))"
    using that m r(2) by (simp only: mset_set_set)
  ultimately show ?thesis
    using r s by simp
qed

text \<open>
  Claim C1.  The claim promises, for every non-empty list of stops with distinct
  identifiers, a permutation after \<open>n\<close> selections.  The selection loop tests
  \<open>if nearest_id:\<close>, which is false for the empty string: a request with two stops
  whose first has the identifier \<open>""\<close> selects that stop in the first round, leaves
  the state as it is, and the loop never ends, so nothing is returned.
\<close>

theorem C1_empty_identifier_diverges:
  "heuristic_optimize_last_mile
     \<lparr>stops = [lm_stop [] origin None, lm_stop ''B'' antipode None],
      vehiclePosition = None, currentSequence = None\<rparr> = None
   \<and> optimize_last_mile None
       \<lparr>stops = [lm_stop [] origin None, lm_stop ''B'' antipode None],
        vehiclePosition = None, currentSequence = None\<rparr> = None
   \<and> distinct (map id_l [lm_stop [] origin None, lm_stop ''B'' antipode None])"
proof -
  let ?stops = "[lm_stop [] origin None, lm_stop ''B'' antipode None]"
  let ?st0 = "\<lparr>unvisited = set (map id_l ?stops),
               optimized = [],
               current_loc = origin,
               total_distance = 0,
               route_path_st = [origin]\<rparr>"
  have "select_nearest (unvisited ?st0) (current_loc ?st0) ?stops = Some ([], 0)"
    by (simp add: select_nearest_def select_step_def effective_distance_def lm_stop_def)
  then have "lm_iter ?stops ?st0 = Inr ?st0"
    by (simp add: lm_iter_def)
  moreover have "unvisited ?st0 \<noteq> {}"
    by simp
  ultimately have "lm_loop ?stops ?st0 = None"
    by (rule lm_loop_stuck)
  then show ?thesis
    by (simp add: optimize_last_mile_def ml_optimize_last_mile_def
        heuristic_optimize_last_mile_def lm_stop_def)
qed

section \<open>Properties of the greedy decoding\<close>

lemma argmax_fold_member:
  "foldl argmax_step acc ps \<in> set (acc # ps)"
proof (induction ps arbitrary: acc)
  case Nil
  then show ?case by simp
next
  case (Cons p ps)
  from Cons [of "argmax_step acc p"] show ?case
    by (auto simp: argmax_step_def split: if_splits)
qed

lemma argmax_fold_Some:
  "snd acc \<noteq> None \<or> (\<exists>p\<in>set ps. snd p \<noteq> None) \<Longrightarrow> snd (foldl argmax_step acc ps) \<noteq> None"
proof (induction ps arbitrary: acc)
  case Nil
  then show ?case by simp
next
  case (Cons p ps)
  have "snd (argmax_step acc p) \<noteq> None \<or> (\<exists>q\<in>set ps. snd q \<noteq> None)"
    using Cons.prems by (auto simp: argmax_step_def score_gt_def split: option.splits)
  from Cons.IH [OF this] show ?case
    by simp
qed

lemma argmax_spec:
  assumes "\<exists>j<length xs. xs ! j \<noteq> None"
  shows "\<exists>j<length xs. argmax xs = Inr j \<and> xs ! j \<noteq> None"
proof (cases xs)
  case Nil
  with assms show ?thesis by simp
next
  case (Cons x rest)
  let ?r = "foldl argmax_step (0, x) (enumerate 1 rest)"
  have e: "(0, x) # enumerate 1 rest = enumerate 0 xs"
    by (simp add: Cons)
  have "?r \<in> set (enumerate 0 xs)"
    using argmax_fold_member [of "(0, x)" "enumerate 1 rest"] by (simp only: e)
  then have r: "fst ?r < length xs" "xs ! fst ?r = snd ?r"
    by (auto simp: in_set_enumerate_eq)
  from assms obtain j where "j < length xs" "xs ! j \<noteq> None"
    by blast
  then have "(j, xs ! j) \<in> set (enumerate 0 xs)"
    by (simp add: in_set_enumerate_eq)
  then have "\<exists>p\<in>set ((0, x) # enumerate 1 rest). snd p \<noteq> None"
    using \<open>xs ! j \<noteq> None\<close> by (simp only: e) force
  then have "snd (0, x) \<noteq> None \<or> (\<exists>p\<in>set (enumerate 1 rest). snd p \<noteq> None)"
    by auto
  from argmax_fold_Some [OF this] have "snd ?r \<noteq> None" .
  with r show ?thesis
    by (simp add: argmax_def Cons)
qed

lemma mask_scores_nth:
  "j < length scores \<Longrightarrow>
   mask_scores visited scores ! j = (if j \<in> visited then None else Some (scores ! j))"
  by (simp add: mask_scores_def nth_enumerate_eq)

lemma length_mask_scores: "length (mask_scores visited scores) = length scores"
  by (simp add: mask_scores_def)

lemma decode_step_progress:
  assumes "length m = N" and "\<forall>row\<in>set m. length row = N"
    and "visited \<subseteq> {0..<N}" and "current \<in> visited" and "card visited < N"
  shows "\<exists>j<N. j \<notin> visited
           \<and> decode_step m (visited, route, current) = Inr (insert j visited, route @ [j], j)"
proof -
  have cur: "current < length m"
    using assms(1,3,4) by auto
  then have len: "length (m ! current) = N"
    using assms(2) by simp
  have noerr: "\<not> (\<exists>v\<in>visited. length (m ! current) \<le> v)"
    using assms(3) len by auto
  have "visited \<noteq> {0..<N}"
    using assms(5) by auto
  with assms(3) have "\<exists>k\<in>{0..<N}. k \<notin> visited"
    by blast
  then obtain k where k: "k < N" "k \<notin> visited"
    by auto
  then have "\<exists>j<length (mask_scores visited (m ! current)).
               mask_scores visited (m ! current) ! j \<noteq> None"
    using len by (intro exI [of _ k]) (simp add: length_mask_scores mask_scores_nth)
  from argmax_spec [OF this] obtain j where j: "j < N"
    "argmax (mask_scores visited (m ! current)) = Inr j"
    "mask_scores visited (m ! current) ! j \<noteq> None"
    by (auto simp: length_mask_scores len)
  from j(1,3) len have "j \<notin> visited"
    by (auto simp: mask_scores_nth split: if_splits)
  with j cur noerr show ?thesis
    by (simp add: decode_step_def Let_def)
qed

lemma decode_loop_terminates:
  assumes "length m = N" and "\<forall>row\<in>set m. length row = N"
    and "visited \<subseteq> {0..<N}" and "current \<in> visited"
    and "set route = visited" and "distinct route"
  shows "\<exists>route'. decode_loop m N (visited, route, current) = Some (Inr route')
           \<and> distinct route' \<and> set route' = {0..<N}"
  using assms(3-6)
proof (induction "N - card visited" arbitrary: visited route current)
  case 0
  have "card visited \<le> card {0..<N}"
    using "0.prems"(1) by (intro card_mono) simp_all
  with "0.hyps" have "card visited = card {0..<N}"
    by simp
  with "0.prems"(1) have v: "visited = {0..<N}"
    by (intro card_subset_eq) simp_all
  then have "decode_loop m N (visited, route, current) = Some (Inr route)"
    by (subst decode_loop.simps) simp
  with "0.prems" v show ?case
    by simp
next
  case (Suc n)
  then have c: "card visited < N"
    by simp
  from decode_step_progress [OF assms(1,2) Suc.prems(1,2) c, of route]
  obtain j where j: "j < N" "j \<notin> visited"
    "decode_step m (visited, route, current) = Inr (insert j visited, route @ [j], j)"
    by blast
  have fin: "finite visited"
    using Suc.prems(1) by (rule finite_subset) simp
  have "n = N - card (insert j visited)"
    using Suc.hyps(2) j(2) fin by simp
  from Suc.hyps(1) [OF this, of j "route @ [j]"] j Suc.prems
  obtain route' where "decode_loop m N (insert j visited, route @ [j], j) = Some (Inr route')"
    "distinct route'" "set route' = {0..<N}"
    by auto
  moreover have "decode_loop m N (visited, route, current)
                 = decode_loop m N (insert j visited, route @ [j], j)"
    using c j(3) by (subst decode_loop.simps) simp
  ultimately show ?case
    by simp
qed

lemma decode_route_from_scores_permutation:
  assumes "length m = N" and "\<forall>row\<in>set m. length row = N" and "0 < N"
  shows "\<exists>route. decode_route_from_scores m N = Some (Inr route)
           \<and> mset route = mset [0..<N]"
proof -
  from decode_loop_terminates [OF assms(1,2), of "{0}" 0 "[0]"] assms(3)
  obtain route where r: "decode_loop m N ({0}, [0], 0) = Some (Inr route)"
    "distinct route" "set route = {0..<N}"
    by auto
  have "mset route = mset_set (set route)"
    using r(2) by (simp add: mset_set_set)
  also have "\<dots> = mset [0..<N]"
    using r(3) by (simp add: mset_set_set [symmetric])
  finally show ?thesis
    using r(1) by (simp add: decode_route_from_scores_def)
qed

section \<open>The cascade of \<open>/api/reroute/last-mile\<close>\<close>

lemma build_graph_from_stops_Inr:
  assumes "all_stops \<noteq> []"
  shows "\<exists>nf adj. build_graph_from_stops all_stops vehicle_pos = Inr (nf, adj)
           \<and> length nf = length all_stops"
proof -
  obtain start where
    "(case vehicle_pos of
        Some v \<Rightarrow> Inr v
      | None \<Rightarrow> (case all_stops of [] \<Rightarrow> Inl IndexError | s # rest \<Rightarrow> Inr (coordinates s)))
     = Inr start"
    using assms by (cases vehicle_pos; cases all_stops) simp_all
  then show ?thesis
    by (simp add: build_graph_from_stops_def Let_def)
qed

lemma route_path_loop_Inr:
  "set sequence \<subseteq> id_l ` set all_stops \<Longrightarrow> \<exists>path. route_path_loop all_stops sequence = Inr path"
proof (induction sequence)
  case Nil
  then show ?case by simp
next
  case (Cons a sequence)
  then have "a \<in> id_l ` set all_stops"
    by simp
  from find_stop_Inr [OF this] obtain s where "find_stop all_stops a = Inr s"
    by blast
  moreover from Cons obtain path where "route_path_loop all_stops sequence = Inr path"
    by auto
  ultimately show ?case
    by simp
qed

lemma tensor_std_nonneg: "0 \<le> tensor_std m"
proof -
  define xs where "xs = concat m"
  define mean where "mean = sum_list xs / real (length xs)"
  have s: "0 \<le> sum_list (map (\<lambda>x. (x - mean)\<^sup>2) xs)"
    by (rule sum_list_nonneg) auto
  have "0 \<le> sum_list (map (\<lambda>x. (x - mean)\<^sup>2) xs) / (real (length xs) - 1)"
  proof (cases xs)
    case Nil
    then show ?thesis by simp
  next
    case (Cons a list)
    then have "0 \<le> real (length xs) - 1"
      by simp
    with s show ?thesis
      by simp
  qed
  then show ?thesis
    by (simp add: tensor_std_def Let_def xs_def mean_def)
qed

lemma ml_finish_confidence:
  assumes "ml_finish request edge_scores optimized_indices = Inr r"
  shows "confidence_l r = min 0.95 (0.7 + tensor_std edge_scores * 0.5)"
    and "optimized_sequence r = map (\<lambda>i. id_l (stops request ! i)) optimized_indices"
  using assms
  by (auto simp: ml_finish_def Let_def split: if_splits sum.splits)

lemma ml_finish_Inr:
  assumes "wf_request request" and "set optimized_indices \<subseteq> {0..<length (stops request)}"
  shows "\<exists>r. ml_finish request edge_scores optimized_indices = Inr r"
proof -
  let ?seq = "map (\<lambda>i. id_l (stops request ! i)) optimized_indices"
  let ?cs = "case currentSequence request of
               None \<Rightarrow> map id_l (stops request)
             | Some cs \<Rightarrow> if cs = [] then map id_l (stops request) else cs"
  have idx: "\<not> (\<exists>i\<in>set optimized_indices. length (stops request) \<le> i)"
    using assms(2) by auto
  have seq: "set ?seq \<subseteq> id_l ` set (stops request)"
    using assms(2) by auto
  have "set ?cs \<subseteq> id_l ` set (stops request)"
    using assms(1) by (auto simp: wf_request_def split: option.splits)
  from calculate_sequence_total_distance_Inr [OF this, of "vehiclePosition request"]
  obtain t where t: "calculate_sequence_total_distance ?cs (stops request)
                       (vehiclePosition request) = Inr t"
    by blast
  from calculate_sequence_total_distance_Inr [OF seq, of "vehiclePosition request"]
  obtain t' where t': "calculate_sequence_total_distance ?seq (stops request)
                       (vehiclePosition request) = Inr t'"
    by blast
  from route_path_loop_Inr [OF seq] obtain path where
    path: "route_path_loop (stops request) ?seq = Inr path"
    by blast
  from build_segment_durations_Inr [OF seq, of "vehiclePosition request"]
  obtain segs where segs: "build_segment_durations ?seq (stops request)
                       (vehiclePosition request) = Inr segs"
    by blast
  show ?thesis
    unfolding ml_finish_def Let_def
    by (simp only: idx if_False t t' path segs sum.case) blast
qed

lemma ml_try_returns:
  assumes "wf_request request" and "stops request \<noteq> []"
    and "square_model model"
  shows "\<exists>x. ml_try model request = Some x
           \<and> (case x of
                 Inl e \<Rightarrow> \<exists>nf adj. model nf adj = Inl e
               | Inr r \<Rightarrow> mset (optimized_sequence r) = mset (map id_l (stops request)))"
proof -
  let ?N = "length (stops request)"
  from build_graph_from_stops_Inr [OF assms(2), of "vehiclePosition request"]
  obtain nf adj where g: "build_graph_from_stops (stops request) (vehiclePosition request)
                            = Inr (nf, adj)" and n: "length nf = ?N"
    by blast
  show ?thesis
  proof (cases "model nf adj")
    case (Inl e)
    with g have "ml_try model request = Some (Inl e)"
      by (simp add: ml_try_def)
    with Inl show ?thesis
      by auto
  next
    case (Inr m)
    with assms(3) n have shape: "length m = ?N" "\<forall>row\<in>set m. length row = ?N"
      by (auto simp: square_model_def)
    from decode_route_from_scores_permutation [OF shape] assms(2)
    obtain route where route: "decode_route_from_scores m ?N = Some (Inr route)"
      "mset route = mset [0..<?N]"
      by auto
    from route(2) have "set route = set [0..<?N]"
      by (rule mset_eq_setD)
    then have "set route \<subseteq> {0..<?N}"
      by simp
    from ml_finish_Inr [OF assms(1) this, of m] obtain r where
      r: "ml_finish request m route = Inr r"
      by blast
    have "mset (optimized_sequence r) = image_mset (\<lambda>i. id_l (stops request ! i)) (mset route)"
      using ml_finish_confidence(2) [OF r] by simp
    also have "\<dots> = mset (map (\<lambda>i. id_l (stops request ! i)) [0..<?N])"
      by (simp only: route(2) mset_map)
    also have "map (\<lambda>i. id_l (stops request ! i)) [0..<?N] = map id_l (stops request)"
      by (rule nth_equalityI) simp_all
    finally have "mset (optimized_sequence r) = mset (map id_l (stops request))" .
    moreover have "ml_try model request = Some (Inr r)"
      using g Inr route(1) r by (simp add: ml_try_def)
    ultimately show ?thesis
      by simp
  qed
qed

lemma square_model_examples: "square_model failing_model" "square_model chain_model"
  by (auto simp: square_model_def failing_model_def chain_model_def Let_def)

lemma wf_request_example:
  "wf_request \<lparr>stops = [lm_stop ''A'' origin None, lm_stop ''B'' antipode None],
               vehiclePosition = Some origin, currentSequence = Some [''B'', ''A'']\<rparr>"
  by (simp add: wf_request_def lm_stop_def)

section \<open>Confidence\<close>

lemma heuristic_optimize_last_mile_confidence:
  assumes "heuristic_optimize_last_mile request = Some (Inr r)"
  shows "confidence_l r = 1 \<or> confidence_l r = 0.65"
proof (cases "length (stops request) \<le> 1")
  case True
  with assms show ?thesis
    by (auto simp: heuristic_optimize_last_mile_def Let_def)
next
  case False
  with assms obtain st where "lm_finish request st = Inr r"
    by (auto simp: heuristic_optimize_last_mile_def Let_def split: option.splits sum.splits)
  then have "confidence_l r = 0.65"
    by (auto simp: lm_finish_def Let_def split: sum.splits)
  then show ?thesis
    by simp
qed

lemma ml_try_confidence:
  assumes "ml_try model request = Some (Inr r)"
  shows "0.7 \<le> confidence_l r \<and> confidence_l r \<le> 0.95"
proof -
  from assms obtain edge_scores optimized_indices where
    "ml_finish request edge_scores optimized_indices = Inr r"
    by (auto simp: ml_try_def split: sum.splits option.splits prod.splits)
  from ml_finish_confidence(1) [OF this] tensor_std_nonneg [of edge_scores]
  show ?thesis
    by (auto simp: min_def)
qed

lemma heuristic_reroute_confidence:
  assumes "heuristic_reroute request = Inr r"
  shows "confidence r = 1 \<or> confidence r = 0.75 \<or> confidence r = 0.6"
proof -
  consider "length (remainingStops request) \<le> 1"
    | "2 \<le> length (remainingStops request)" "length (remainingStops request) \<le> 6"
    | "6 < length (remainingStops request)"
    by linarith
  then show ?thesis
  proof cases
    case 1
    with assms show ?thesis
      by (auto simp: heuristic_reroute_def Let_def)
  next
    case 2
    with assms have "exhaustive_search_reroute request = Inr r"
      by (simp add: heuristic_reroute_def Let_def)
    with exhaustive_search_reroute_result [of request] show ?thesis
      by auto
  next
    case 3
    with assms have "nearest_neighbor_reroute request = Inr r"
      by (simp add: heuristic_reroute_def Let_def)
    then show ?thesis
      by (auto simp: nearest_neighbor_reroute_def split: sum.splits)
  qed
qed

lemma ml_try_total:
  assumes "wf_request request" and "stops request \<noteq> []"
    and "square_model model" and "\<And>nf adj e. model nf adj \<noteq> Inl e"
  shows "\<exists>r. ml_try model request = Some (Inr r)
           \<and> mset (optimized_sequence r) = mset (map id_l (stops request))"
proof -
  from ml_try_returns [OF assms(1-3)] obtain x where
    x: "ml_try model request = Some x"
    and c: "case x of
              Inl e \<Rightarrow> \<exists>nf adj. model nf adj = Inl e
            | Inr r \<Rightarrow> mset (optimized_sequence r) = mset (map id_l (stops request))"
    by blast
  show ?thesis
  proof (cases x)
    case (Inl e)
    with c assms(4) show ?thesis
      by simp
  next
    case (Inr r)
    with x c show ?thesis
      by simp
  qed
qed

text \<open>
  Claim C7.  Whatever strategy produced it, the confidence of a returned result lies in
  \<open>[0, 1]\<close>, on both endpoints; the confidence of the learned path,
  \<open>min(0.95, 0.7 + std * 0.5)\<close>, lies between 0.7 and the cap 0.95.
\<close>

theorem C7_confidence_in_unit_interval:
  "(\<forall>r. optimize_last_mile TRAINED_MODEL request = Some (Inr r) \<longrightarrow>
         0 \<le> confidence_l r \<and> confidence_l r \<le> 1)
   \<and> (\<forall>r. ml_try model request = Some (Inr r) \<longrightarrow>
         0.7 \<le> confidence_l r \<and> confidence_l r \<le> 0.95)
   \<and> (\<forall>r. reroute TRAINED_MODEL request' = Inr r \<longrightarrow> 0 \<le> confidence r \<and> confidence r \<le> 1)"
proof -
  have a: "0 \<le> confidence_l r \<and> confidence_l r \<le> 1"
    if "optimize_last_mile TRAINED_MODEL request = Some (Inr r)" for r
  proof -
    from that have m: "ml_optimize_last_mile TRAINED_MODEL request = Some (Inr r)"
      by (auto simp: optimize_last_mile_def split: option.splits sum.splits)
    then consider "heuristic_optimize_last_mile request = Some (Inr r)"
      | mdl where "ml_try mdl request = Some (Inr r)"
      by (auto simp: ml_optimize_last_mile_def split: option.splits sum.splits if_splits)
    then show ?thesis
    proof cases
      case 1
      from heuristic_optimize_last_mile_confidence [OF this] show ?thesis
        by auto
    next
      case 2
      from ml_try_confidence [OF this] show ?thesis
        by simp
    qed
  qed
  have c: "0 \<le> confidence r \<and> confidence r \<le> 1" if "reroute TRAINED_MODEL request' = Inr r" for r
  proof -
    from that have "heuristic_reroute request' = Inr r"
      by (auto simp: reroute_def ml_reroute_eq split: sum.splits)
    from heuristic_reroute_confidence [OF this] show ?thesis
      by auto
  qed
  from a c ml_try_confidence show ?thesis
    by blast
qed

theorem C7_confidence_in_unit_interval_witness:
  "\<exists>r. optimize_last_mile (Some chain_model)
          \<lparr>stops = [lm_stop ''A'' origin None, lm_stop ''B'' antipode None],
           vehiclePosition = Some origin, currentSequence = Some [''B'', ''A'']\<rparr>
        = Some (Inr r)
      \<and> ml_try chain_model
          \<lparr>stops = [lm_stop ''A'' origin None, lm_stop ''B'' antipode None],
           vehiclePosition = Some origin, currentSequence = Some [''B'', ''A'']\<rparr>
        = Some (Inr r)
      \<and> 0.7 \<le> confidence_l r \<and> confidence_l r \<le> 0.95
      \<and> (\<exists>r'. reroute (Some chain_model) (reroute_request [stop_east, stop_west]) = Inr r'
             \<and> 0 \<le> confidence r' \<and> confidence r' \<le> 1)"
proof -
  let ?req = "\<lparr>stops = [lm_stop ''A'' origin None, lm_stop ''B'' antipode None],
               vehiclePosition = Some origin, currentSequence = Some [''B'', ''A'']\<rparr>"
  have ne: "stops ?req \<noteq> []"
    by simp
  have "chain_model nf adj \<noteq> Inl e" for nf adj e
    by (simp add: chain_model_def Let_def)
  from ml_try_total [OF wf_request_example ne square_model_examples(2) this]
  obtain r where r: "ml_try chain_model ?req = Some (Inr r)"
    by blast
  then have o: "optimize_last_mile (Some chain_model) ?req = Some (Inr r)"
    by (simp add: optimize_last_mile_def ml_optimize_last_mile_def)
  obtain r' where r': "reroute (Some chain_model) (reroute_request [stop_east, stop_west]) = Inr r'"
    by (simp add: reroute_def ml_reroute_eq heuristic_reroute_def reroute_request_sel
        exhaustive_example)
  note c = C7_confidence_in_unit_interval [of "Some chain_model" ?req chain_model
      "reroute_request [stop_east, stop_west]"]
  from c r have "0.7 \<le> confidence_l r \<and> confidence_l r \<le> 0.95"
    by blast
  moreover from c r' have "0 \<le> confidence r' \<and> confidence r' \<le> 1"
    by blast
  ultimately show ?thesis
    using r o r' by blast
qed

section \<open>Priority and savings in \<open>heuristic_optimize_last_mile\<close>\<close>

lemma lm_loop_example_savings:
  "lm_loop [lm_stop ''A'' origin None, lm_stop ''B'' antipode None]
     \<lparr>unvisited = {''A'', ''B''}, optimized = [], current_loc = origin, total_distance = 0,
      route_path_st = [origin]\<rparr>
   = Some (Inr \<lparr>unvisited = {}, optimized = [''A'', ''B''], current_loc = antipode,
                 total_distance = 6371 * pi, route_path_st = [origin, origin, antipode]\<rparr>)"
  by (simp add: lm_loop.simps lm_iter_def select_nearest_def select_step_def
      effective_distance_def lm_stop_def find_stop_def insert_Diff_if)

lemma lm_loop_example_tie:
  "lm_loop [lm_stop ''N'' origin None, lm_stop ''P'' origin (Some 1)]
     \<lparr>unvisited = {''N'', ''P''}, optimized = [], current_loc = origin, total_distance = 0,
      route_path_st = [origin]\<rparr>
   = Some (Inr \<lparr>unvisited = {}, optimized = [''N'', ''P''], current_loc = origin,
                 total_distance = 0, route_path_st = [origin, origin, origin]\<rparr>)"
  by (simp add: lm_loop.simps lm_iter_def select_nearest_def select_step_def
      effective_distance_def lm_stop_def find_stop_def insert_Diff_if)

lemma lm_stop_sel:
  "id_l (lm_stop i loc p) = i" "coordinates (lm_stop i loc p) = loc"
  "priority (lm_stop i loc p) = p"
  by (simp_all add: lm_stop_def)

lemma distance_loop_example:
  "distance_loop [lm_stop ''A'' origin None, lm_stop ''B'' antipode None] [''B'', ''A''] origin 0
     = Inr (2 * (6371 * pi))"
  "distance_loop [lm_stop ''A'' origin None, lm_stop ''B'' antipode None] [''A'', ''B''] origin 0
     = Inr (6371 * pi)"
  by (simp_all add: find_stop_def lm_stop_def)

text \<open>
  Claim C6.  The claim takes both distances in the same units.  In
  \<open>heuristic_optimize_last_mile\<close> the baseline is \<open>calculate_sequence_total_distance\<close>
  (miles) while the optimized distance is the loop's \<open>total_distance\<close> (kilometres, with
  the priority discounts).  With the vehicle at the origin, stop A there, stop B half the
  equator away and the current sequence B, A, the optimized order A, B saves
  \<open>0.621371 * 6371 * pi\<close> miles, and the code reports \<open>0.242742 * 6371 * pi\<close>.
\<close>

theorem C6_heuristic_savings_mix_units:
  "map_option (map_sum id (\<lambda>r. (optimized_sequence r, distance_savings_miles r)))
     (heuristic_optimize_last_mile
        \<lparr>stops = [lm_stop ''A'' origin None, lm_stop ''B'' antipode None],
         vehiclePosition = Some origin, currentSequence = Some [''B'', ''A'']\<rparr>)
     = Some (Inr ([''A'', ''B''], 0.242742 * (6371 * pi)))
   \<and> calculate_sequence_total_distance [''B'', ''A'']
        [lm_stop ''A'' origin None, lm_stop ''B'' antipode None] (Some origin)
       = Inr (2 * (6371 * pi) * 0.621371)
   \<and> calculate_sequence_total_distance [''A'', ''B'']
        [lm_stop ''A'' origin None, lm_stop ''B'' antipode None] (Some origin)
       = Inr (6371 * pi * 0.621371)
   \<and> 2 * (6371 * pi) * 0.621371 - 6371 * pi * 0.621371 \<noteq> 0.242742 * (6371 * pi)"
proof -
  let ?stops = "[lm_stop ''A'' origin None, lm_stop ''B'' antipode None]"
  let ?req = "\<lparr>stops = ?stops, vehiclePosition = Some origin,
               currentSequence = Some [''B'', ''A'']\<rparr>"
  have base: "calculate_sequence_total_distance [''B'', ''A''] ?stops (Some origin)
                = Inr (2 * (6371 * pi) * 0.621371)"
    by (simp add: calculate_sequence_total_distance_def distance_loop_example
        del: distance_loop.simps)
  have opt: "calculate_sequence_total_distance [''A'', ''B''] ?stops (Some origin)
                = Inr (6371 * pi * 0.621371)"
    by (simp add: calculate_sequence_total_distance_def distance_loop_example
        del: distance_loop.simps)
  obtain segs where segs: "build_segment_durations [''A'', ''B''] ?stops (Some origin) = Inr segs"
    using build_segment_durations_Inr [of "[''A'', ''B'']" ?stops "Some origin"]
    by (auto simp: lm_stop_def)
  have "map_sum id (\<lambda>r. (optimized_sequence r, distance_savings_miles r))
          (lm_finish ?req \<lparr>unvisited = {}, optimized = [''A'', ''B''], current_loc = antipode,
                 total_distance = 6371 * pi, route_path_st = [origin, origin, antipode]\<rparr>)
        = Inr ([''A'', ''B''], 0.242742 * (6371 * pi))"
    by (simp add: lm_finish_def base segs Let_def)
  then have "map_option (map_sum id (\<lambda>r. (optimized_sequence r, distance_savings_miles r)))
               (heuristic_optimize_last_mile ?req)
             = Some (Inr ([''A'', ''B''], 0.242742 * (6371 * pi)))"
    unfolding heuristic_optimize_last_mile_def Let_def
    by (simp add: lm_stop_sel lm_loop_example_savings)
  moreover have "2 * (6371 * pi) * 0.621371 - 6371 * pi * 0.621371 \<noteq> 0.242742 * (6371 * pi)"
    by simp
  ultimately show ?thesis
    using base opt by simp
qed

text \<open>
  Claim C5, amended.  The effective distance of a stop with priority 1 is its distance
  times 0.8.  At a selection step where a priority stop and a normal stop are both
  unvisited and at the same positive distance from the current position, the normal
  stop is not the one selected; when the two are the only unvisited stops, the priority
  stop is selected.  (At distance 0 the discount changes nothing and the input order
  decides.)
\<close>

theorem C5_priority_discount:
  assumes "s1 \<in> set all_stops" and "s2 \<in> set all_stops"
    and "id_l s1 \<in> unv" and "id_l s2 \<in> unv"
    and "priority s1 = Some 1" and "priority s2 \<noteq> Some 1"
    and "distance_km cur (coordinates s1) = distance_km cur (coordinates s2)"
    and "0 < distance_km cur (coordinates s1)"
    and "distinct (map id_l all_stops)"
  shows "effective_distance cur s1 = distance_km cur (coordinates s1) * 0.8
       \<and> effective_distance cur s2 = distance_km cur (coordinates s2)
       \<and> (\<exists>i d. select_nearest unv cur all_stops = Some (i, d)
                \<and> i \<noteq> id_l s2
                \<and> (unv = {id_l s1, id_l s2} \<longrightarrow> i = id_l s1))"
proof -
  have e1: "effective_distance cur s1 = distance_km cur (coordinates s1) * 0.8"
    using assms(5) by (simp add: effective_distance_def)
  have e2: "effective_distance cur s2 = distance_km cur (coordinates s2)"
    using assms(6) by (simp add: effective_distance_def)
  have lt: "effective_distance cur s1 < effective_distance cur s2"
    using assms(7,8) e1 e2 by simp
  note spec = select_nearest_spec [where unv = unv and cur = cur and xs = all_stops]
  from spec assms(1,3) obtain i d where
    sel: "select_nearest unv cur all_stops = Some (i, d)"
    by (cases "select_nearest unv cur all_stops") auto
  from spec sel obtain s where s: "s \<in> set all_stops" "id_l s = i" "i \<in> unv"
    "d = effective_distance cur s"
    and le: "\<forall>s'\<in>set all_stops. id_l s' \<in> unv \<longrightarrow> d \<le> effective_distance cur s'"
    by auto
  from le assms(1,3) have "d \<le> effective_distance cur s1"
    by blast
  with lt have "d < effective_distance cur s2"
    by simp
  with s(4) have "s \<noteq> s2"
    by auto
  have "i \<noteq> id_l s2"
  proof
    assume "i = id_l s2"
    with s(2) have "id_l s = id_l s2"
      by simp
    moreover from assms(9) have "inj_on id_l (set all_stops)"
      by (simp add: distinct_map)
    ultimately have "s = s2"
      using s(1) assms(2) by (simp add: inj_on_eq_iff)
    with \<open>s \<noteq> s2\<close> show False
      by simp
  qed
  moreover from this s(3) have "i = id_l s1" if "unv = {id_l s1, id_l s2}"
    using that by auto
  ultimately show ?thesis
    using e1 e2 sel by blast
qed

theorem C5_priority_discount_witness:
  "lm_stop ''P'' antipode (Some 1) \<in> set [lm_stop ''N'' antipode None, lm_stop ''P'' antipode (Some 1)]
   \<and> priority (lm_stop ''P'' antipode (Some 1)) = Some 1
   \<and> priority (lm_stop ''N'' antipode None) \<noteq> Some 1
   \<and> distance_km origin (coordinates (lm_stop ''P'' antipode (Some 1)))
       = distance_km origin (coordinates (lm_stop ''N'' antipode None))
   \<and> 0 < distance_km origin (coordinates (lm_stop ''P'' antipode (Some 1)))
   \<and> distinct (map id_l [lm_stop ''N'' antipode None, lm_stop ''P'' antipode (Some 1)])
   \<and> (\<exists>d. select_nearest {''P'', ''N''} origin
              [lm_stop ''N'' antipode None, lm_stop ''P'' antipode (Some 1)] = Some (''P'', d))"
proof -
  let ?p = "lm_stop ''P'' antipode (Some 1)"
  let ?n = "lm_stop ''N'' antipode None"
  have h: "?p \<in> set [?n, ?p]" "?n \<in> set [?n, ?p]" "id_l ?p \<in> {''P'', ''N''}"
    "id_l ?n \<in> {''P'', ''N''}" "priority ?p = Some 1" "priority ?n \<noteq> Some 1"
    "distance_km origin (coordinates ?p) = distance_km origin (coordinates ?n)"
    "0 < distance_km origin (coordinates ?p)" "distinct (map id_l [?n, ?p])"
    by (simp_all add: lm_stop_sel)
  from C5_priority_discount [OF h]
  have "\<exists>d. select_nearest {''P'', ''N''} origin [?n, ?p] = Some (''P'', d)"
    by (auto simp: lm_stop_sel)
  with h show ?thesis
    by blast
qed

theorem C5_zero_distance_counterexample:
  "distance_km origin (coordinates (lm_stop ''N'' origin None))
     = distance_km origin (coordinates (lm_stop ''P'' origin (Some 1)))
   \<and> priority (lm_stop ''P'' origin (Some 1)) = Some 1
   \<and> priority (lm_stop ''N'' origin None) \<noteq> Some 1
   \<and> select_nearest {''N'', ''P''} origin
        [lm_stop ''N'' origin None, lm_stop ''P'' origin (Some 1)] = Some (''N'', 0)
   \<and> map_option (map_sum id optimized_sequence)
        (heuristic_optimize_last_mile
           \<lparr>stops = [lm_stop ''N'' origin None, lm_stop ''P'' origin (Some 1)],
            vehiclePosition = Some origin, currentSequence = None\<rparr>)
       = Some (Inr [''N'', ''P''])"
proof -
  let ?stops = "[lm_stop ''N'' origin None, lm_stop ''P'' origin (Some 1)]"
  let ?req = "\<lparr>stops = ?stops, vehiclePosition = Some origin, currentSequence = None\<rparr>"
  have sel: "select_nearest {''N'', ''P''} origin ?stops = Some (''N'', 0)"
    by (simp add: select_nearest_def select_step_def effective_distance_def lm_stop_sel)
  let ?st = "\<lparr>unvisited = {}, optimized = [''N'', ''P''], current_loc = origin,
              total_distance = 0, route_path_st = [origin, origin, origin]\<rparr>"
  have w: "wf_request ?req"
    by (simp add: wf_request_def lm_stop_sel)
  have o: "set (optimized ?st) \<subseteq> id_l ` set (stops ?req)"
    by (simp add: lm_stop_sel)
  from lm_finish_Inr [OF w o] obtain r where "lm_finish ?req ?st = Inr r"
    "optimized_sequence r = [''N'', ''P'']"
    by auto
  then have "map_option (map_sum id optimized_sequence) (heuristic_optimize_last_mile ?req)
             = Some (Inr [''N'', ''P''])"
    unfolding heuristic_optimize_last_mile_def Let_def
    by (simp add: lm_stop_sel lm_loop_example_tie)
  with sel show ?thesis
    by (simp add: lm_stop_sel)
qed

section \<open>Exceptions of the fallback\<close>

lemma ml_optimize_last_mile_caught:
  "ml_try model request = Some (Inl e) \<Longrightarrow>
   ml_optimize_last_mile (Some model) request = heuristic_optimize_last_mile request"
  by (simp add: ml_optimize_last_mile_def)

text \<open>
  Claim C4.  \<open>ml_optimize_last_mile\<close> catches what is raised inside its \<open>try\<close>, but the
  heuristic it then calls runs outside any \<open>try\<close>, and the endpoint turns whatever the
  heuristic raises into an HTTP error.  Here the stops and their coordinates are valid and
  the current sequence names \<open>Z\<close>, which is no stop of the request: the heuristic raises
  \<open>StopIteration\<close>, and the endpoint raises to the caller, with no model and with a model
  whose inference fails.  A \<open>ValueError\<close> of \<open>calculate_distance_km\<close> (claim C8) takes the
  same way out.
\<close>

theorem C4_fallback_exception_reaches_caller:
  "heuristic_optimize_last_mile
     \<lparr>stops = [lm_stop ''A'' origin None, lm_stop ''B'' antipode None],
      vehiclePosition = Some origin, currentSequence = Some [''Z'']\<rparr>
     = Some (Inl StopIteration)
   \<and> optimize_last_mile None
       \<lparr>stops = [lm_stop ''A'' origin None, lm_stop ''B'' antipode None],
        vehiclePosition = Some origin, currentSequence = Some [''Z'']\<rparr>
     = Some (Inl HTTPException)
   \<and> ml_try failing_model
       \<lparr>stops = [lm_stop ''A'' origin None, lm_stop ''B'' antipode None],
        vehiclePosition = Some origin, currentSequence = Some [''Z'']\<rparr>
     = Some (Inl (ModelError ''inference failed''))
   \<and> optimize_last_mile (Some failing_model)
       \<lparr>stops = [lm_stop ''A'' origin None, lm_stop ''B'' antipode None],
        vehiclePosition = Some origin, currentSequence = Some [''Z'']\<rparr>
     = Some (Inl HTTPException)"
proof -
  let ?stops = "[lm_stop ''A'' origin None, lm_stop ''B'' antipode None]"
  let ?req = "\<lparr>stops = ?stops, vehiclePosition = Some origin, currentSequence = Some [''Z'']\<rparr>"
  have "calculate_sequence_total_distance [''Z''] ?stops (Some origin) = Inl StopIteration"
    by (simp add: calculate_sequence_total_distance_def find_stop_def lm_stop_sel)
  then have "lm_finish ?req \<lparr>unvisited = {}, optimized = [''A'', ''B''], current_loc = antipode,
                 total_distance = 6371 * pi, route_path_st = [origin, origin, antipode]\<rparr>
             = Inl StopIteration"
    by (simp add: lm_finish_def Let_def)
  then have h: "heuristic_optimize_last_mile ?req = Some (Inl StopIteration)"
    unfolding heuristic_optimize_last_mile_def Let_def
    by (simp add: lm_stop_sel lm_loop_example_savings)
  have t: "ml_try failing_model ?req = Some (Inl (ModelError ''inference failed''))"
    by (simp add: ml_try_def build_graph_from_stops_def failing_model_def Let_def)
  have "optimize_last_mile None ?req = Some (Inl HTTPException)"
    using h by (simp add: optimize_last_mile_def ml_optimize_last_mile_def)
  moreover have "optimize_last_mile (Some failing_model) ?req = Some (Inl HTTPException)"
    using h ml_optimize_last_mile_caught [OF t] by (simp add: optimize_last_mile_def)
  ultimately show ?thesis
    using h t by simp
qed

end
